theory Spec2Isabelle
  imports Main "HOL-Library.Sublist"
begin

section \<open>Text and character classes\<close>

text \<open>
  A Python \<open>str\<close> is a sequence of code points. The development covers texts whose code
  points lie below 256, as a \<open>string\<close> (one \<open>char\<close> per code point). The character
  classes are those of CPython on that range: \<open>str.isspace\<close> (which is also what
  \<open>str.strip\<close> removes and what \<open>\s\<close> matches in a \<open>str\<close> pattern), the word
  characters of \<open>\w\<close> and \<open>\b\<close> (alphanumerics and the underscore), and the line
  boundaries of \<open>str.splitlines\<close>.
\<close>

abbreviation bslash :: char where "bslash \<equiv> CHR 0x5C"
abbreviation newline :: char where "newline \<equiv> CHR 0x0A"

definition is_space :: "char \<Rightarrow> bool" where
  "is_space c \<longleftrightarrow>
     (of_char c :: nat) \<in> {9, 10, 11, 12, 13, 28, 29, 30, 31, 32, 133, 160}"

definition is_ascii_letter :: "char \<Rightarrow> bool" where
  "is_ascii_letter c \<longleftrightarrow>
     (let n = (of_char c :: nat) in (65 \<le> n \<and> n \<le> 90) \<or> (97 \<le> n \<and> n \<le> 122))"

definition is_word :: "char \<Rightarrow> bool" where
  "is_word c \<longleftrightarrow>
     (let n = (of_char c :: nat) in
        (48 \<le> n \<and> n \<le> 57) \<or> (65 \<le> n \<and> n \<le> 90) \<or> n = 95 \<or> (97 \<le> n \<and> n \<le> 122) \<or>
        n = 170 \<or> n = 178 \<or> n = 179 \<or> n = 181 \<or> n = 185 \<or> n = 186 \<or>
        (188 \<le> n \<and> n \<le> 190) \<or> (192 \<le> n \<and> n \<le> 214) \<or> (216 \<le> n \<and> n \<le> 246) \<or>
        248 \<le> n)"

definition is_linebreak :: "char \<Rightarrow> bool" where
  "is_linebreak c \<longleftrightarrow> (of_char c :: nat) \<in> {10, 11, 12, 13, 28, 29, 30, 133}"

text \<open>\<open>str.strip()\<close> with no argument: whitespace is removed at both ends.\<close>

definition lstrip :: "string \<Rightarrow> string" where
  "lstrip s = dropWhile is_space s"

definition rstrip :: "string \<Rightarrow> string" where
  "rstrip s = rev (dropWhile is_space (rev s))"

definition strip :: "string \<Rightarrow> string" where
  "strip s = rstrip (lstrip s)"

text \<open>\<open>s.startswith(p)\<close>, and the text left after a literal prefix.\<close>

fun strip_prefix :: "string \<Rightarrow> string \<Rightarrow> string option" where
  "strip_prefix [] s = Some s"
| "strip_prefix (p # ps) [] = None"
| "strip_prefix (p # ps) (c # cs) = (if p = c then strip_prefix ps cs else None)"

definition startswith :: "string \<Rightarrow> string \<Rightarrow> bool" where
  "startswith s p \<longleftrightarrow> strip_prefix p s \<noteq> None"

section \<open>Content normalizer (\<open>normalize_latex_content\<close>)\<close>

text \<open>
  \<open>s.replace("\\n", "\\\n")\<close>: every occurrence, left to right and without overlap, of
  the two characters backslash, \<open>n\<close> becomes backslash, line feed.
\<close>

fun normalize_latex_content :: "string \<Rightarrow> string" where
  "normalize_latex_content (a # b # s) =
     (if a = bslash \<and> b = CHR ''n'' then bslash # newline # normalize_latex_content s
      else a # normalize_latex_content (b # s))"
| "normalize_latex_content s = s"

text \<open>Whether the two characters backslash, \<open>n\<close> occur next to each other in a text.\<close>

fun has_bslash_n :: "string \<Rightarrow> bool" where
  "has_bslash_n (a # b # s) = ((a = bslash \<and> b = CHR ''n'') \<or> has_bslash_n (b # s))"
| "has_bslash_n s = False"

section \<open>Section boundary locator and body replacer\<close>

text \<open>
  \<open>extract_section_body\<close> and \<open>update_overleaf_section\<close> build the same pattern from
  \<open>re.escape(heading_command)\<close> and \<open>re.escape(section_title)\<close>, compiled with
  \<open>re.DOTALL\<close>:
  \<^verbatim>\<open>(\\CMD\*?\{TITLE\}\s*)(.*?)(?=(\\CMD\b|\\section\b|\\subsection\b|\\chapter\b|\\cvsection\b|\\end\{document\}))\<close>
  The matcher is written as the backtracking search it is: each greedy or lazy quantifier
  tries its preferred choice first and falls back when the rest of the pattern fails.
\<close>

text \<open>
  \<open>re.escape\<close>: a backslash is put before each of the characters below, the other
  characters stay as they are.
\<close>

definition special_chars :: string where
  "special_chars =
     ''()[]{}?*+-|^$'' @ [bslash] @ ''.&~# '' @ [CHR 0x09, CHR 0x0A, CHR 0x0D, CHR 0x0B, CHR 0x0C]"

definition re_escape :: "string \<Rightarrow> string" where
  "re_escape s = concat (map (\<lambda>c. if c \<in> set special_chars then [bslash, c] else [c]) s)"

text \<open>
  How the pattern compiler reads a piece of pattern text that is to be a literal: a
  backslash followed by a character that is not an ASCII letter or digit stands for that
  character, a character without a meaning of its own in a pattern stands for itself.
  Anything else (a metacharacter that is not escaped, a backslash followed by a letter
  or a digit, a backslash at the end) is not a literal, and the result is \<open>None\<close>.
\<close>

definition is_meta :: "char \<Rightarrow> bool" where
  "is_meta c \<longleftrightarrow> c \<in> set (''.^$*+?{}[]|()'' @ [bslash])"

definition is_ascii_alnum :: "char \<Rightarrow> bool" where
  "is_ascii_alnum c \<longleftrightarrow>
     is_ascii_letter c \<or> (let n = (of_char c :: nat) in 48 \<le> n \<and> n \<le> 57)"

fun pattern_literal :: "string \<Rightarrow> string option" where
  "pattern_literal [] = Some []"
| "pattern_literal [c] = (if is_meta c then None else Some [c])"
| "pattern_literal (c # d # pat) =
     (if c = bslash then
        (if is_ascii_alnum d then None else map_option ((#) d) (pattern_literal pat))
      else if is_meta c then None
      else map_option ((#) c) (pattern_literal (d # pat)))"

text \<open>
  A literal piece of pattern tried at the start of \<open>s\<close>: the text it matched and the
  text left.
\<close>

definition literal_at :: "string \<Rightarrow> string \<Rightarrow> (string \<times> string) option" where
  "literal_at pat s =
     (case pattern_literal pat of
        None \<Rightarrow> None
      | Some lit \<Rightarrow> map_option (\<lambda>r. (lit, r)) (strip_prefix lit s))"

text \<open>
  \<open>\b\<close> right after a matched character \<open>p\<close>, with \<open>r\<close> the text that follows: a
  boundary lies there when exactly one side is a word character (the end of the text is
  not one).
\<close>

definition word_boundary :: "char \<Rightarrow> string \<Rightarrow> bool" where
  "word_boundary p r \<longleftrightarrow> (is_word p \<noteq> (case r of [] \<Rightarrow> False | x # _ \<Rightarrow> is_word x))"

text \<open>
  An alternative \<open>PAT\b\<close> of the lookahead, with \<open>PAT\<close> a literal piece of pattern,
  tried at the start of \<open>s\<close>.
\<close>

definition literal_b :: "string \<Rightarrow> string \<Rightarrow> bool" where
  "literal_b pat s =
     (case literal_at pat s of
        None \<Rightarrow> False
      | Some (lit, r) \<Rightarrow> lit \<noteq> [] \<and> word_boundary (last lit) r)"

text \<open>
  The whole lookahead, tried at the start of \<open>s\<close>. Each alternative is given by its
  pattern text; in it \<open>\\\<close> is an escaped backslash.
\<close>

definition stop_at :: "string \<Rightarrow> string \<Rightarrow> bool" where
  "stop_at cmd s \<longleftrightarrow>
     literal_b ([bslash, bslash] @ re_escape cmd) s \<or>
     literal_b ([bslash, bslash] @ ''section'') s \<or>
     literal_b ([bslash, bslash] @ ''subsection'') s \<or>
     literal_b ([bslash, bslash] @ ''chapter'') s \<or>
     literal_b ([bslash, bslash] @ ''cvsection'') s \<or>
     literal_at ([bslash, bslash] @ ''end'' @ [bslash] @ ''{document'' @ [bslash] @ ''}'') s \<noteq> None"

text \<open>
  \<open>(.*?)(?=...)\<close>: the lazy body takes no character if the lookahead holds here, and
  otherwise one more character (any character, under \<open>re.DOTALL\<close>). The result is the
  body and the text from the boundary on.
\<close>

fun lazy_body :: "string \<Rightarrow> string \<Rightarrow> (string \<times> string) option" where
  "lazy_body cmd [] = (if stop_at cmd [] then Some ([], []) else None)"
| "lazy_body cmd (x # xs) =
     (if stop_at cmd (x # xs) then Some ([], x # xs)
      else map_option (\<lambda>(b, r). (x # b, r)) (lazy_body cmd xs))"

text \<open>
  \<open>\s*\<close> followed by the body: the greedy star takes one more whitespace character
  when the rest of the pattern then matches, and stops here otherwise. The result is the
  whitespace taken, the body and the text from the boundary on.
\<close>

fun ws_body :: "string \<Rightarrow> string \<Rightarrow> (string \<times> string \<times> string) option" where
  "ws_body cmd [] = map_option (\<lambda>(b, r). ([], b, r)) (lazy_body cmd [])"
| "ws_body cmd (x # xs) =
     (case (if is_space x then ws_body cmd xs else None) of
        Some (w, b, r) \<Rightarrow> Some (x # w, b, r)
      | None \<Rightarrow> map_option (\<lambda>(b, r). ([], b, r)) (lazy_body cmd (x # xs)))"

text \<open>
  \<open>\{TITLE\}\s*\<close> and the rest, after the command name and the optional star; \<open>h\<close> is
  the heading text matched so far.
\<close>

definition title_body :: "string \<Rightarrow> string \<Rightarrow> string \<Rightarrow> string
    \<Rightarrow> (string \<times> string \<times> string) option" where
  "title_body cmd title h s =
     (case literal_at ([bslash] @ ''{'' @ re_escape title @ [bslash] @ ''}'') s of
        None \<Rightarrow> None
      | Some (lit, r) \<Rightarrow> map_option (\<lambda>(w, b, r'). (h @ lit @ w, b, r')) (ws_body cmd r))"

text \<open>
  The whole pattern tried at the start of \<open>s\<close>: group 1 (the heading with its trailing
  whitespace), group 2 (the body) and the text after the match. \<open>\*?\<close> is greedy: the
  star is taken first when it is there, and left when the rest then fails.
\<close>

definition match_at :: "string \<Rightarrow> string \<Rightarrow> string \<Rightarrow> (string \<times> string \<times> string) option" where
  "match_at cmd title s =
     (case literal_at ([bslash, bslash] @ re_escape cmd) s of
        None \<Rightarrow> None
      | Some (lit, r) \<Rightarrow>
          (case (case r of
                   x # xs \<Rightarrow>
                     if x = CHR ''*'' then title_body cmd title (lit @ ''*'') xs
                     else None
                 | [] \<Rightarrow> None) of
             Some m \<Rightarrow> Some m
           | None \<Rightarrow> title_body cmd title lit r))"

text \<open>
  \<open>regex.search(text)\<close>: the first start position, from the left, at which the pattern
  matches. The result is the text before the match, group 1, group 2 and the text after
  the match.
\<close>

type_synonym section_match = "string \<times> string \<times> string \<times> string"

fun regex_search :: "string \<Rightarrow> string \<Rightarrow> string \<Rightarrow> section_match option" where
  "regex_search cmd title [] = map_option (\<lambda>m. ([], m)) (match_at cmd title [])"
| "regex_search cmd title (x # xs) =
     (case match_at cmd title (x # xs) of
        Some m \<Rightarrow> Some ([], m)
      | None \<Rightarrow> map_option (\<lambda>(p, m). (x # p, m)) (regex_search cmd title xs))"

text \<open>\<open>extract_section_body\<close>: \<open>m.group(2)\<close> of the first match, or \<open>None\<close>.\<close>

definition extract_section_body :: "string \<Rightarrow> string \<Rightarrow> string \<Rightarrow> string option" where
  "extract_section_body full_text section_title heading_command =
     map_option (\<lambda>(p, h, b, r). b) (regex_search heading_command section_title full_text)"

text \<open>
  The substitution of \<open>update_overleaf_section\<close>:
  \<open>regex.subn(replacer, text, count=1)\<close> with the new body normalized first. The first
  match, if any, becomes \<open>header + new_section_body.strip() + "\n"\<close>; the result is the
  new text and the number of substitutions made.
\<close>

definition replace_section :: "string \<Rightarrow> string \<Rightarrow> string \<Rightarrow> string \<Rightarrow> string \<times> nat" where
  "replace_section text section_title heading_command new_section_body =
     (case regex_search heading_command section_title text of
        None \<Rightarrow> (text, 0)
      | Some (p, h, b, r) \<Rightarrow>
          (p @ h @ strip (normalize_latex_content new_section_body) @ [newline] @ r, 1))"


section \<open>Lines and regular-expression substitution\<close>

text \<open>
  \<open>str.splitlines()\<close>: the text is cut at every line boundary (carriage return followed
  by line feed is one boundary); the boundaries are not kept, and a text that ends with
  a boundary has no empty last line. \<open>cur\<close> is the line read so far.
\<close>

fun lines_from :: "string \<Rightarrow> string \<Rightarrow> string list" where
  "lines_from cur [] = (if cur = [] then [] else [cur])"
| "lines_from cur (c # cs) =
     (if is_linebreak c then
        cur # (case cs of
                 [] \<Rightarrow> []
               | x # xs \<Rightarrow>
                   if c = CHR 0x0D \<and> x = newline then lines_from [] xs
                   else lines_from [] (x # xs))
      else lines_from (cur @ [c]) cs)"

definition splitlines :: "string \<Rightarrow> string list" where
  "splitlines s = lines_from [] s"

text \<open>\<open>sep.join(xs)\<close>.\<close>

fun join :: "string \<Rightarrow> string list \<Rightarrow> string" where
  "join sep [] = []"
| "join sep [x] = x"
| "join sep (x # y # ys) = x @ sep @ join sep (y # ys)"

text \<open>
  \<open>re.sub(pattern, repl, text)\<close> for a pattern that never matches the empty string.
  The matcher \<open>m\<close> tries the pattern at the start of a text and returns the length of
  the match and its replacement. The scan goes from left to right: a match is replaced
  and the scan resumes after it, a character at which the pattern fails is copied.
  \<open>k\<close> is the number of characters of the last match still to pass over.
\<close>

fun re_sub_from :: "(string \<Rightarrow> (nat \<times> string) option) \<Rightarrow> nat \<Rightarrow> string \<Rightarrow> string" where
  "re_sub_from m k [] = []"
| "re_sub_from m (Suc k) (c # cs) = re_sub_from m k cs"
| "re_sub_from m 0 (c # cs) =
     (case m (c # cs) of
        Some (n, r) \<Rightarrow> r @ re_sub_from m (n - 1) cs
      | None \<Rightarrow> c # re_sub_from m 0 cs)"

definition re_sub :: "(string \<Rightarrow> (nat \<times> string) option) \<Rightarrow> string \<Rightarrow> string" where
  "re_sub m s = re_sub_from m 0 s"

section \<open>Preview renderer (\<open>latex_preview\<close>)\<close>

definition section_cmds :: "string list" where
  "section_cmds =
     [''section'', ''subsection'', ''subsubsection'', ''cvsection'', ''chapter'', ''sect'']"

text \<open>
  \<open>re.match(r"\\([a-zA-Z]+)\*?\{([^}]*)\}", stripped)\<close>, giving groups 1 and 2. Each
  greedy quantifier takes its whole run: what follows it in the pattern is a character
  outside the class, so giving a character back cannot make the rest match.
\<close>

definition heading_match :: "string \<Rightarrow> (string \<times> string) option" where
  "heading_match s =
     (case s of
        [] \<Rightarrow> None
      | c # r \<Rightarrow>
          if c \<noteq> bslash then None
          else
            let name = takeWhile is_ascii_letter r;
                r1 = dropWhile is_ascii_letter r;
                r2 = (case r1 of [] \<Rightarrow> r1 | x # xs \<Rightarrow> if x = CHR ''*'' then xs else r1)
            in if name = [] then None
               else (case r2 of
                       [] \<Rightarrow> None
                     | y # r3 \<Rightarrow>
                         if y \<noteq> CHR ''{'' then None
                         else if dropWhile (\<lambda>z. z \<noteq> CHR ''}'') r3 = [] then None
                         else Some (name, takeWhile (\<lambda>z. z \<noteq> CHR ''}'') r3)))"

text \<open>
  The lines one input line appends to \<open>out\<close> in the loop of \<open>latex_preview\<close>.
  \<open>str.upper\<close> is the parameter \<open>up\<close>: the capitals of some letters below 256 lie
  outside that range.
\<close>

definition preview_rest :: "string \<Rightarrow> string list" where
  "preview_rest stripped =
     (if startswith stripped (bslash # ''item'')
      then [''- '' @ lstrip (drop (length (bslash # ''item'')) stripped)]
      else [stripped])"

definition preview_line :: "(string \<Rightarrow> string) \<Rightarrow> string \<Rightarrow> string list" where
  "preview_line up line =
     (let stripped = strip line in
        if stripped = [] then []
        else if startswith stripped ''%'' then []
        else if startswith stripped (bslash # ''documentclass'') then []
        else if startswith stripped (bslash # ''usepackage'') then []
        else if startswith stripped (bslash # ''begin{document}'')
                \<or> startswith stripped (bslash # ''end{document}'') then []
        else (case heading_match stripped of
                None \<Rightarrow> preview_rest stripped
              | Some (name, arg) \<Rightarrow>
                  if name \<in> set section_cmds
                  then (let title = strip arg
                        in [[], up title, replicate (length title) (CHR ''-'')])
                  else preview_rest stripped))"

text \<open>The list \<open>out\<close> after the loop over the lines.\<close>

definition preview_out :: "(string \<Rightarrow> string) \<Rightarrow> string list \<Rightarrow> string list" where
  "preview_out up lines = concat (map (preview_line up) lines)"

text \<open>\<open>latex_preview\<close>: the lines of the text go through the loop and are joined again.\<close>

definition latex_preview :: "(string \<Rightarrow> string) \<Rightarrow> string \<Rightarrow> string" where
  "latex_preview up doc = strip (join [newline] (preview_out up (splitlines doc)))"

section \<open>Plain-text reducer (\<open>strip_latex_to_plain\<close>)\<close>

text \<open>\<open>\\item\s*\<close>, replaced by a dash and a space.\<close>

definition item_pat :: "string \<Rightarrow> (nat \<times> string) option" where
  "item_pat s =
     (case strip_prefix (bslash # ''item'') s of
        None \<Rightarrow> None
      | Some r \<Rightarrow> Some (5 + length (takeWhile is_space r), ''- ''))"

text \<open>
  \<open>\\[a-zA-Z]+\*?(?:\[[^\]]*\])?\{([^}]*)\}\<close>, replaced by group 1. The optional
  bracket group is taken when a closing bracket follows; when it is opened and cannot
  be used the pattern fails, since the brace it then needs is not a bracket.
\<close>

definition braces_arg :: "nat \<Rightarrow> string \<Rightarrow> (nat \<times> string) option" where
  "braces_arg n s =
     (case s of
        [] \<Rightarrow> None
      | y # r \<Rightarrow>
          if y \<noteq> CHR ''{'' then None
          else if dropWhile (\<lambda>z. z \<noteq> CHR ''}'') r = [] then None
          else (let arg = takeWhile (\<lambda>z. z \<noteq> CHR ''}'') r
                in Some (n + length arg + 2, arg)))"

definition command_arg_pat :: "string \<Rightarrow> (nat \<times> string) option" where
  "command_arg_pat s =
     (case s of
        [] \<Rightarrow> None
      | c # r \<Rightarrow>
          if c \<noteq> bslash then None
          else
            let name = takeWhile is_ascii_letter r;
                r1 = dropWhile is_ascii_letter r;
                star = (case r1 of [] \<Rightarrow> [] | x # xs \<Rightarrow> if x = CHR ''*'' then [x] else []);
                r2 = drop (length star) r1;
                n2 = 1 + length name + length star
            in if name = [] then None
               else (case r2 of
                       [] \<Rightarrow> None
                     | y # r3 \<Rightarrow>
                         if y = CHR ''[''
                         then (let opt = takeWhile (\<lambda>z. z \<noteq> CHR '']'') r3;
                                   r4 = dropWhile (\<lambda>z. z \<noteq> CHR '']'') r3
                               in if r4 = [] then None
                                  else braces_arg (n2 + length opt + 2) (tl r4))
                         else braces_arg n2 r2))"

text \<open>\<open>\\[a-zA-Z]+(\*?)\<close>, deleted.\<close>

definition command_pat :: "string \<Rightarrow> (nat \<times> string) option" where
  "command_pat s =
     (case s of
        [] \<Rightarrow> None
      | c # r \<Rightarrow>
          if c \<noteq> bslash then None
          else
            let name = takeWhile is_ascii_letter r;
                r1 = dropWhile is_ascii_letter r;
                star = (case r1 of [] \<Rightarrow> [] | x # xs \<Rightarrow> if x = CHR ''*'' then [x] else [])
            in if name = [] then None
               else Some (1 + length name + length star, []))"

text \<open>\<open>[ \t]+\<close>, replaced by one space.\<close>

definition blanks_pat :: "string \<Rightarrow> (nat \<times> string) option" where
  "blanks_pat s =
     (let run = takeWhile (\<lambda>c. c = CHR '' '' \<or> c = CHR 0x09) s
      in if run = [] then None else Some (length run, '' ''))"

text \<open>
  \<open>\n\s*\n+\<close>, replaced by two line feeds. After the first line feed the greedy
  \<open>\s*\<close> takes the whole run of whitespace and gives characters back until a line
  feed follows it: the match ends with the last line feed of the run, and fails when
  the run has none.
\<close>

definition blank_lines_pat :: "string \<Rightarrow> (nat \<times> string) option" where
  "blank_lines_pat s =
     (case s of
        [] \<Rightarrow> None
      | c # r \<Rightarrow>
          if c \<noteq> newline then None
          else
            let run = takeWhile is_space r;
                upto = rev (dropWhile (\<lambda>z. z \<noteq> newline) (rev run))
            in if upto = [] then None else Some (1 + length upto, [newline, newline]))"

definition drop_comment_lines :: "string \<Rightarrow> string" where
  "drop_comment_lines text =
     join [newline] (filter (\<lambda>line. \<not> startswith (strip line) ''%'') (splitlines text))"

definition strip_latex_to_plain :: "string \<Rightarrow> string" where
  "strip_latex_to_plain text =
     strip (re_sub blank_lines_pat (re_sub blanks_pat (re_sub command_pat
       (re_sub command_arg_pat (re_sub item_pat (drop_comment_lines text))))))"

section \<open>Sentence summarizer (\<open>summarize_overleaf_section\<close>)\<close>

text \<open>
  \<open>re.split(r"(?<=[.!?])\s+", plain)\<close>: the text is cut at every run of whitespace that
  comes right after a full stop, an exclamation mark or a question mark. \<open>p\<close> says
  whether the character before the current one is such a mark, \<open>cur\<close> is the piece read
  so far.
\<close>

definition is_sentence_end :: "char \<Rightarrow> bool" where
  "is_sentence_end c \<longleftrightarrow> c = CHR ''.'' \<or> c = CHR ''!'' \<or> c = CHR ''?''"

function split_from :: "bool \<Rightarrow> string \<Rightarrow> string \<Rightarrow> string list" where
  "split_from p cur [] = [cur]"
| "split_from p cur (c # cs) =
     (if p \<and> is_space c then cur # split_from False [] (dropWhile is_space cs)
      else split_from (is_sentence_end c) (cur @ [c]) cs)"
  by pat_completeness auto
termination
  by (relation "measure (\<lambda>(p, cur, s). length s)")
     (auto simp: length_dropWhile_le less_Suc_eq_le)

definition split_sentences :: "string \<Rightarrow> string list" where
  "split_sentences plain = split_from False [] plain"

text \<open>\<open>xs[:n]\<close> for a Python integer \<open>n\<close>: a negative \<open>n\<close> counts from the end.\<close>

definition slice_to :: "int \<Rightarrow> 'a list \<Rightarrow> 'a list" where
  "slice_to n xs = (if 0 \<le> n then take (nat n) xs else take (length xs - nat (- n)) xs)"

text \<open>
  The summarizer proper, from the plain text on: nothing for an empty text, the text
  itself when no sentence is left, and otherwise the summary and the example line.
\<close>

datatype summary = Empty | Unsplit string | Summary string string

definition summarize :: "string \<Rightarrow> int \<Rightarrow> summary" where
  "summarize plain max_sentences =
     (if plain = [] then Empty
      else
        let sentences = map strip (filter (\<lambda>s. strip s \<noteq> []) (split_sentences plain))
        in if sentences = [] then Unsplit plain
           else
             let summary_sentences = slice_to max_sentences sentences;
                 lines = map strip (filter (\<lambda>l. strip l \<noteq> []) (splitlines plain));
                 bullet_lines = filter (\<lambda>l. startswith l ''- '') lines
             in Summary (join '' '' summary_sentences)
                  (case bullet_lines of
                     b # _ \<Rightarrow> b
                   | [] \<Rightarrow> (case sentences of
                              _ # s1 # _ \<Rightarrow> s1
                            | s0 # _ \<Rightarrow> s0
                            | [] \<Rightarrow> [])))"

text \<open>
  \<open>summarize_overleaf_section\<close> once the file is read: the section body is located,
  reduced to plain text and summarized; \<open>None\<close> is the section that is not found.
\<close>

definition summarize_section :: "string \<Rightarrow> string \<Rightarrow> string \<Rightarrow> int \<Rightarrow> summary option" where
  "summarize_section full_text section_title heading_command max_sentences =
     map_option (\<lambda>body. summarize (strip_latex_to_plain body) max_sentences)
       (extract_section_body full_text section_title heading_command)"

section \<open>Auxiliary notions for the statements\<close>

text \<open>The heading text \<open>\CMD{TITLE}\<close> or \<open>\CMD*{TITLE}\<close> (\<open>star\<close> is empty or a star).\<close>

definition heading :: "string \<Rightarrow> string \<Rightarrow> string \<Rightarrow> string" where
  "heading cmd star title = bslash # cmd @ star @ ''{'' @ title @ ''}''"

text \<open>
  The token \<open>\NAME\<close> at the start of \<open>s\<close>, with a word boundary after it; \<open>NAME\<close> is
  the name itself, not a pattern.
\<close>

definition cmd_token :: "string \<Rightarrow> string \<Rightarrow> bool" where
  "cmd_token name s =
     (case strip_prefix (bslash # name) s of
        None \<Rightarrow> False
      | Some r \<Rightarrow> word_boundary (last (bslash # name)) r)"

text \<open>Whether the text \<open>p\<close> occurs somewhere in \<open>s\<close>.\<close>

fun occurs_in :: "string \<Rightarrow> string \<Rightarrow> bool" where
  "occurs_in p [] = (p = [])"
| "occurs_in p (c # cs) = (strip_prefix p (c # cs) \<noteq> None \<or> occurs_in p cs)"

text \<open>
  \<open>Path.read_text\<close> reads in text mode: a carriage return, alone or followed by a line
  feed, comes back as one line feed. \<open>Path.write_text\<close> writes each line feed as the
  line separator of the platform, \<open>linesep\<close>.
\<close>

fun universal_newlines :: "string \<Rightarrow> string" where
  "universal_newlines [] = []"
| "universal_newlines [a] = (if a = CHR 0x0D then [newline] else [a])"
| "universal_newlines (a # b # s) =
     (if a = CHR 0x0D then
        (if b = newline then newline # universal_newlines s
         else newline # universal_newlines (b # s))
      else a # universal_newlines (b # s))"

definition write_newlines :: "string \<Rightarrow> string \<Rightarrow> string" where
  "write_newlines linesep s = concat (map (\<lambda>c. if c = newline then linesep else [c]) s)"

text \<open>
  The file effects of \<open>update_overleaf_section\<close> on the checked-out project, a map from
  paths to the stored contents of the files: a missing file and a section that is not
  found leave the files as they are, and a substitution writes the new text back.
  Cloning, committing and pushing are outside this model.
\<close>

datatype update_outcome = File_Missing | Section_Not_Found | Section_Updated

definition update_overleaf_section ::
  "string \<Rightarrow> (string \<rightharpoonup> string) \<Rightarrow> string \<Rightarrow> string \<Rightarrow> string \<Rightarrow> string
     \<Rightarrow> update_outcome \<times> (string \<rightharpoonup> string)" where
  "update_overleaf_section linesep files path section_title new_section_body heading_command =
     (case files path of
        None \<Rightarrow> (File_Missing, files)
      | Some stored \<Rightarrow>
          (case replace_section (universal_newlines stored) section_title heading_command
                  new_section_body of
             (new_text, count) \<Rightarrow>
               if count = 0 then (Section_Not_Found, files)
               else (Section_Updated, files(path \<mapsto> write_newlines linesep new_text))))"

text \<open>
  The document of the SKILLS scenario, with the body of the first section and the text
  after the second heading left open.
\<close>

definition skills_doc :: "string \<Rightarrow> string \<Rightarrow> string" where
  "skills_doc body rest =
     bslash # ''section{SKILLS}\<newline>'' @ body @ bslash # ''section{PROJECTS}\<newline>'' @ rest"

text \<open>
  The heading tokens of the specification's stop set at the start of \<open>s\<close>: those of the
  lookahead, and \<open>\subsubsection\<close>.
\<close>

definition heading_token_at :: "string \<Rightarrow> string \<Rightarrow> bool" where
  "heading_token_at cmd s \<longleftrightarrow> stop_at cmd s \<or> cmd_token ''subsubsection'' s"

text \<open>
  Whether such a token starts inside the new body \<open>nb\<close> once it is spliced, with its
  line feed, before the text \<open>r\<close> that followed the old body.
\<close>

definition token_inside :: "string \<Rightarrow> string \<Rightarrow> string \<Rightarrow> bool" where
  "token_inside cmd nb r \<longleftrightarrow>
     list_ex (\<lambda>k. heading_token_at cmd (drop k (nb @ newline # r))) [0..<length nb]"

text \<open>
  A new body that a second substitution finds again as it is: the section is not found at
  all, or the trimmed new body is not empty and no heading token starts inside it.
\<close>

definition splice_safe :: "string \<Rightarrow> string \<Rightarrow> string \<Rightarrow> string \<Rightarrow> bool" where
  "splice_safe cmd title doc nb =
     (case regex_search cmd title doc of
        None \<Rightarrow> True
      | Some (p, h, b, r) \<Rightarrow> nb \<noteq> [] \<and> \<not> token_inside cmd nb r)"

text \<open>
  The characters by which retained content is followed through the plain-text reducer:
  everything but whitespace, which the reducer rewrites freely, and the dash, which it
  writes for a list item.
\<close>

definition retained :: "char \<Rightarrow> bool" where
  "retained c \<longleftrightarrow> \<not> is_space c \<and> c \<noteq> CHR ''-''"

text \<open>Documents and bodies of the examples.\<close>

definition old_doc :: string where
  "old_doc = bslash # ''section{A}\<newline>old\<newline>'' @ bslash # ''section{B}\<newline>''"

definition sub_body :: string where
  "sub_body = ''Intro\<newline>'' @ bslash # ''subsection{Details}\<newline>More''"

definition noindent_doc :: string where
  "noindent_doc = bslash # ''section{A}\<newline>'' @ bslash # ''noindent Hi\<newline>''
     @ bslash # ''section{B}\<newline>''"

section \<open>Properties of the normalizer\<close>

lemma normalize_hd: "\<exists>r. normalize_latex_content (a # s) = a # r"
  by (cases s) auto

lemma normalize_free: "\<not> has_bslash_n s \<Longrightarrow> normalize_latex_content s = s"
  by (induction s rule: normalize_latex_content.induct) auto

lemma normalize_no_bslash_n: "\<not> has_bslash_n (normalize_latex_content s)"
proof (induction s rule: normalize_latex_content.induct)
  case (1 a b s)
  show ?case
  proof (cases "a = bslash \<and> b = CHR ''n''")
    case True
    have "\<not> has_bslash_n (newline # normalize_latex_content s)"
      using 1(1)[OF True] by (cases "normalize_latex_content s") auto
    with True show ?thesis by simp
  next
    case False
    obtain r where r: "normalize_latex_content (b # s) = b # r"
      using normalize_hd by blast
    with 1(2)[OF False] False show ?thesis by auto
  qed
qed simp_all

text \<open>
  C10. The content normalizer is idempotent, \<open>normalize (normalize s) = normalize s\<close> for
  every text \<open>s\<close>, because its output never contains a backslash immediately followed
  by the letter \<open>n\<close>.
\<close>

theorem normalize_idempotent:
  "normalize_latex_content (normalize_latex_content s) = normalize_latex_content s
   \<and> \<not> has_bslash_n (normalize_latex_content s)"
  by (simp add: normalize_free normalize_no_bslash_n)

section \<open>Properties of the matcher\<close>

lemma strip_prefix_Some_iff: "strip_prefix p s = Some r \<longleftrightarrow> s = p @ r"
  by (induction p s rule: strip_prefix.induct) auto

lemma meta_special: "is_meta c \<Longrightarrow> c \<in> set special_chars"
  by (auto simp: is_meta_def special_chars_def)

lemma special_not_alnum: "c \<in> set special_chars \<Longrightarrow> \<not> is_ascii_alnum c"
  by (auto simp: special_chars_def is_ascii_alnum_def is_ascii_letter_def)

lemma pattern_literal_Cons:
  "c \<noteq> bslash \<Longrightarrow> \<not> is_meta c \<Longrightarrow>
     pattern_literal (c # pat) = map_option ((#) c) (pattern_literal pat)"
  by (cases pat) auto

lemma pattern_literal_escaped:
  "\<not> is_ascii_alnum d \<Longrightarrow>
     pattern_literal (bslash # d # pat) = map_option ((#) d) (pattern_literal pat)"
  by simp

lemma pattern_literal_append:
  "pattern_literal a = Some la \<Longrightarrow>
     pattern_literal (a @ b) = map_option ((@) la) (pattern_literal b)"
proof (induction a arbitrary: la rule: pattern_literal.induct)
  case 1
  then show ?case by (simp add: option.map_ident)
next
  case (2 c)
  then have c: "\<not> is_meta c" "la = [c]" by (auto split: if_splits)
  then have "c \<noteq> bslash" by (auto simp: is_meta_def)
  with c show ?case by (simp add: pattern_literal_Cons)
next
  case (3 c d pat)
  show ?case
  proof (cases "c = bslash")
    case True
    with 3(3) obtain l where l: "\<not> is_ascii_alnum d" "pattern_literal pat = Some l" "la = d # l"
      by (auto split: if_splits)
    from 3(1)[OF True l(1) l(2)] True l show ?thesis
      by (simp add: option.map_comp comp_def)
  next
    case False
    with 3(3) obtain l where l: "\<not> is_meta c" "pattern_literal (d # pat) = Some l" "la = c # l"
      by (auto split: if_splits)
    from 3(2)[OF False l(1) l(2)] False l show ?thesis
      by (simp add: option.map_comp comp_def)
  qed
qed

text \<open>An escaped text is read by the pattern compiler as the literal it came from.\<close>

lemma pattern_literal_escape: "pattern_literal (re_escape s) = Some s"
proof (induction s)
  case Nil
  then show ?case by (simp add: re_escape_def)
next
  case (Cons c s)
  have e: "re_escape (c # s) = (if c \<in> set special_chars then [bslash, c] else [c]) @ re_escape s"
    by (simp add: re_escape_def)
  show ?case
  proof (cases "c \<in> set special_chars")
    case True
    then have "\<not> is_ascii_alnum c" by (rule special_not_alnum)
    with True Cons e show ?thesis by simp
  next
    case False
    then have "\<not> is_meta c" using meta_special by blast
    moreover from False have "c \<noteq> bslash" by (auto simp: special_chars_def)
    ultimately show ?thesis using False Cons e by (simp add: pattern_literal_Cons)
  qed
qed

lemma bslash_not_alnum: "\<not> is_ascii_alnum bslash"
  by (simp add: is_ascii_alnum_def is_ascii_letter_def)

lemma literal_at_cmd:
  "literal_at ([bslash, bslash] @ re_escape name) s
     = map_option (\<lambda>r. (bslash # name, r)) (strip_prefix (bslash # name) s)"
  by (simp add: literal_at_def bslash_not_alnum pattern_literal_escape)

lemma literal_at_fixed:
  "pattern_literal name = Some name \<Longrightarrow>
     literal_at ([bslash, bslash] @ name) s
       = map_option (\<lambda>r. (bslash # name, r)) (strip_prefix (bslash # name) s)"
  by (simp add: literal_at_def bslash_not_alnum)

lemma literal_at_title:
  "literal_at ([bslash] @ ''{'' @ re_escape title @ [bslash] @ ''}'') s
     = map_option (\<lambda>r. (''{'' @ title @ ''}'', r)) (strip_prefix (''{'' @ title @ ''}'') s)"
proof -
  have "pattern_literal (re_escape title @ [bslash, CHR ''}'']) = Some (title @ ''}'')"
    by (simp add: pattern_literal_append[OF pattern_literal_escape] is_ascii_alnum_def
        is_ascii_letter_def)
  then have "pattern_literal ([bslash] @ ''{'' @ re_escape title @ [bslash] @ ''}'')
      = Some (''{'' @ title @ ''}'')"
    by (simp add: is_ascii_alnum_def is_ascii_letter_def)
  then show ?thesis by (simp add: literal_at_def)
qed

lemma literal_b_cmd: "literal_b ([bslash, bslash] @ re_escape name) s = cmd_token name s"
  unfolding literal_b_def literal_at_cmd cmd_token_def by (simp split: option.splits)

lemma literal_b_fixed:
  "pattern_literal name = Some name \<Longrightarrow> literal_b ([bslash, bslash] @ name) s = cmd_token name s"
  unfolding literal_b_def cmd_token_def
  by (subst literal_at_fixed, assumption) (simp split: option.splits)

lemma literal_at_end:
  "literal_at ([bslash, bslash] @ ''end'' @ [bslash] @ ''{document'' @ [bslash] @ ''}'') s \<noteq> None
     \<longleftrightarrow> startswith s (bslash # ''end{document}'')"
  by (simp add: literal_at_def startswith_def is_ascii_alnum_def is_ascii_letter_def is_meta_def)

text \<open>
  With the escaped command and title read back as literals, the lookahead and the
  pattern are plain prefix tests on the command and the title as they were given.
\<close>

lemma stop_at_eq:
  "stop_at cmd s \<longleftrightarrow>
     cmd_token cmd s \<or> cmd_token ''section'' s \<or> cmd_token ''subsection'' s \<or>
     cmd_token ''chapter'' s \<or> cmd_token ''cvsection'' s \<or>
     startswith s (bslash # ''end{document}'')"
proof -
  have f: "pattern_literal ''section'' = Some ''section''"
    "pattern_literal ''subsection'' = Some ''subsection''"
    "pattern_literal ''chapter'' = Some ''chapter''"
    "pattern_literal ''cvsection'' = Some ''cvsection''"
    by (simp_all add: is_meta_def)
  show ?thesis
    unfolding stop_at_def literal_b_cmd literal_b_fixed[OF f(1)] literal_b_fixed[OF f(2)]
      literal_b_fixed[OF f(3)] literal_b_fixed[OF f(4)] literal_at_end ..
qed

lemma title_body_eq:
  "title_body cmd title h s =
     (case strip_prefix (''{'' @ title @ ''}'') s of
        None \<Rightarrow> None
      | Some r \<Rightarrow>
          map_option (\<lambda>(w, b, r'). (h @ ''{'' @ title @ ''}'' @ w, b, r')) (ws_body cmd r))"
  unfolding title_body_def literal_at_title by (simp split: option.splits)

lemma match_at_eq:
  "match_at cmd title s =
     (case strip_prefix (bslash # cmd) s of
        None \<Rightarrow> None
      | Some r \<Rightarrow>
          (case (case r of
                   x # xs \<Rightarrow>
                     if x = CHR ''*'' then title_body cmd title (bslash # cmd @ ''*'') xs
                     else None
                 | [] \<Rightarrow> None) of
             Some m \<Rightarrow> Some m
           | None \<Rightarrow> title_body cmd title (bslash # cmd) r))"
  unfolding match_at_def literal_at_cmd
  by (cases "strip_prefix (bslash # cmd) s") (auto split: list.splits)

lemma strip_prefix_append: "strip_prefix p (p @ r) = Some r"
  by (simp add: strip_prefix_Some_iff)

lemma startswith_iff: "startswith s p \<longleftrightarrow> (\<exists>r. s = p @ r)"
  by (auto simp: startswith_def strip_prefix_Some_iff)

lemma cmd_token_bslash: "cmd_token name s \<Longrightarrow> \<exists>r. s = bslash # r"
  by (auto simp: cmd_token_def strip_prefix_Some_iff split: option.splits)

lemma stop_at_bslash: "stop_at cmd s \<Longrightarrow> \<exists>r. s = bslash # r"
  unfolding stop_at_eq startswith_iff by (auto dest: cmd_token_bslash)

lemma bslash_not_space: "\<not> is_space bslash"
  by (simp add: is_space_def)

lemma stop_at_not_space: "stop_at cmd (x # xs) \<Longrightarrow> \<not> is_space x"
  using stop_at_bslash bslash_not_space by fastforce

lemma stop_at_Nil: "\<not> stop_at cmd []"
  using stop_at_bslash by fastforce

lemma lazy_body_Some:
  "lazy_body cmd s = Some (b, r) \<Longrightarrow>
     s = b @ r \<and> stop_at cmd r \<and> (\<forall>k<length b. \<not> stop_at cmd (drop k s))"
proof (induction s arbitrary: b)
  case Nil
  then show ?case by (simp add: stop_at_Nil)
next
  case (Cons x xs)
  show ?case
  proof (cases "stop_at cmd (x # xs)")
    case True
    with Cons.prems show ?thesis by simp
  next
    case False
    with Cons.prems obtain b' where b': "lazy_body cmd xs = Some (b', r)" "b = x # b'"
      by auto
    from Cons.IH[OF b'(1)] have ih: "xs = b' @ r" "stop_at cmd r"
      "\<forall>k<length b'. \<not> stop_at cmd (drop k xs)" by auto
    have "\<not> stop_at cmd (drop k (x # xs))" if "k < length b" for k
      using that False ih(3) b'(2) by (cases k) auto
    with ih b' show ?thesis by simp
  qed
qed

lemma lazy_body_intro:
  "stop_at cmd r \<Longrightarrow> (\<forall>k<length b. \<not> stop_at cmd (drop k (b @ r))) \<Longrightarrow>
     lazy_body cmd (b @ r) = Some (b, r)"
proof (induction b)
  case Nil
  then show ?case by (cases r) (auto simp: stop_at_Nil)
next
  case (Cons x b)
  from Cons.prems(2) have "\<not> stop_at cmd (x # b @ r)" by force
  moreover have "\<forall>k<length b. \<not> stop_at cmd (drop k (b @ r))"
    using Cons.prems(2) by force
  ultimately show ?case using Cons.IH[OF Cons.prems(1)] by simp
qed

lemma lazy_body_suffix: "stop_at cmd r \<Longrightarrow> lazy_body cmd (a @ r) \<noteq> None"
proof (induction a)
  case Nil
  then show ?case by (cases r) (auto simp: stop_at_Nil)
next
  case (Cons x a)
  then show ?case by auto
qed

lemma lazy_body_dropWhile_None:
  "lazy_body cmd (dropWhile is_space s) = None \<Longrightarrow> lazy_body cmd s = None"
proof (induction s)
  case Nil
  then show ?case by simp
next
  case (Cons x xs)
  show ?case
  proof (cases "is_space x")
    case True
    then have "\<not> stop_at cmd (x # xs)" using stop_at_not_space by blast
    with True Cons show ?thesis by simp
  next
    case False
    with Cons.prems show ?thesis by simp
  qed
qed

lemma ws_body_eq:
  "ws_body cmd s =
     map_option (\<lambda>(b, r). (takeWhile is_space s, b, r)) (lazy_body cmd (dropWhile is_space s))"
proof (induction s)
  case Nil
  then show ?case by (simp add: stop_at_Nil)
next
  case (Cons x xs)
  show ?case
  proof (cases "is_space x")
    case True
    show ?thesis
    proof (cases "lazy_body cmd (dropWhile is_space xs)")
      case None
      then have "lazy_body cmd xs = None" by (rule lazy_body_dropWhile_None)
      moreover have "\<not> stop_at cmd (x # xs)" using True stop_at_not_space by blast
      ultimately show ?thesis using True None Cons.IH by simp
    next
      case (Some a)
      then show ?thesis using True Cons.IH by (cases a) simp
    qed
  next
    case False
    then show ?thesis by simp
  qed
qed

lemma lazy_body_ws_suffix:
  "stop_at cmd r \<Longrightarrow> lazy_body cmd (dropWhile is_space (a @ r)) \<noteq> None"
proof (induction a)
  case Nil
  then obtain r' where "r = bslash # r'" using stop_at_bslash by blast
  with Nil show ?case by (simp add: bslash_not_space)
next
  case (Cons x a)
  show ?case
  proof (cases "is_space x")
    case True
    with Cons show ?thesis by simp
  next
    case False
    then have "dropWhile is_space ((x # a) @ r) = (x # a) @ r" by simp
    with lazy_body_suffix[OF Cons.prems, of "x # a"] show ?thesis by simp
  qed
qed

lemma match_at_Some_iff:
  "match_at cmd title s = Some (h, b, r) \<longleftrightarrow>
     (\<exists>star rest. (star = [] \<or> star = ''*'') \<and> s = heading cmd star title @ rest
        \<and> h = heading cmd star title @ takeWhile is_space rest
        \<and> lazy_body cmd (dropWhile is_space rest) = Some (b, r))"
  (is "?L \<longleftrightarrow> ?R")
proof
  assume ?L
  then show ?R
    unfolding match_at_eq title_body_eq heading_def ws_body_eq
    by (auto simp: strip_prefix_Some_iff split: option.splits list.splits if_splits)
next
  assume ?R
  then obtain star rest where sr: "star = [] \<or> star = ''*''"
      "s = heading cmd star title @ rest"
      "h = heading cmd star title @ takeWhile is_space rest"
      "lazy_body cmd (dropWhile is_space rest) = Some (b, r)" by blast
  from sr(1) show ?L
  proof
    assume "star = []"
    with sr show ?L
      unfolding match_at_eq title_body_eq heading_def ws_body_eq
      by (auto simp: strip_prefix_append strip_prefix_Some_iff split: option.splits list.splits)
  next
    assume "star = ''*''"
    with sr show ?L
      unfolding match_at_eq title_body_eq heading_def ws_body_eq
      by (auto simp: strip_prefix_append strip_prefix_Some_iff split: option.splits list.splits)
  qed
qed

lemma match_at_Nil: "match_at cmd title [] = None"
  by (simp add: match_at_eq)

lemma regex_search_Some:
  "regex_search cmd title s = Some (p, m) \<Longrightarrow>
     \<exists>u. s = p @ u \<and> match_at cmd title u = Some m
        \<and> (\<forall>k<length p. match_at cmd title (drop k s) = None)"
proof (induction s arbitrary: p)
  case Nil
  then show ?case by (simp add: match_at_Nil)
next
  case (Cons x xs)
  show ?case
  proof (cases "match_at cmd title (x # xs)")
    case (Some a)
    with Cons.prems show ?thesis by simp
  next
    case None
    with Cons.prems obtain p' where p': "regex_search cmd title xs = Some (p', m)" "p = x # p'"
      by auto
    from Cons.IH[OF p'(1)] obtain u where u: "xs = p' @ u" "match_at cmd title u = Some m"
      "\<forall>k<length p'. match_at cmd title (drop k xs) = None" by blast
    have "match_at cmd title (drop k (x # xs)) = None" if "k < length p" for k
      using that None u(3) p'(2) by (cases k) auto
    with u p' show ?thesis by simp
  qed
qed

lemma regex_search_intro:
  "match_at cmd title u = Some m \<Longrightarrow>
   (\<forall>k<length p. match_at cmd title (drop k (p @ u)) = None) \<Longrightarrow>
     regex_search cmd title (p @ u) = Some (p, m)"
proof (induction p)
  case Nil
  then show ?case by (cases u) (auto simp: match_at_Nil)
next
  case (Cons x p)
  from Cons.prems(2) have "match_at cmd title (x # p @ u) = None" by force
  moreover have "\<forall>k<length p. match_at cmd title (drop k (p @ u)) = None"
    using Cons.prems(2) by force
  ultimately show ?case using Cons.IH[OF Cons.prems(1)] by simp
qed

lemma regex_search_None_iff:
  "regex_search cmd title s = None \<longleftrightarrow> (\<forall>k\<le>length s. match_at cmd title (drop k s) = None)"
proof (induction s)
  case Nil
  then show ?case by (simp add: match_at_Nil)
next
  case (Cons x xs)
  have "(\<forall>k\<le>length (x # xs). match_at cmd title (drop k (x # xs)) = None) \<longleftrightarrow>
        match_at cmd title (x # xs) = None \<and> (\<forall>k\<le>length xs. match_at cmd title (drop k xs) = None)"
    (is "?A \<longleftrightarrow> ?B")
  proof
    assume a: ?A
    have "match_at cmd title (drop k xs) = None" if "k \<le> length xs" for k
      using a[rule_format, of "Suc k"] that by simp
    moreover have "match_at cmd title (x # xs) = None" using a[rule_format, of 0] by simp
    ultimately show ?B by blast
  next
    assume b: ?B
    show ?A
    proof (intro allI impI)
      fix k assume "k \<le> length (x # xs)"
      then show "match_at cmd title (drop k (x # xs)) = None"
        using b by (cases k) auto
    qed
  qed
  then show ?case using Cons.IH by (auto split: option.splits)
qed

lemma lazy_body_None_iff:
  "lazy_body cmd s = None \<longleftrightarrow> (\<forall>k\<le>length s. \<not> stop_at cmd (drop k s))"
proof
  assume n: "lazy_body cmd s = None"
  show "\<forall>k\<le>length s. \<not> stop_at cmd (drop k s)"
  proof (intro allI impI notI)
    fix k assume "k \<le> length s" "stop_at cmd (drop k s)"
    then have "lazy_body cmd (take k s @ drop k s) \<noteq> None" by (intro lazy_body_suffix)
    with n show False by simp
  qed
next
  assume a: "\<forall>k\<le>length s. \<not> stop_at cmd (drop k s)"
  show "lazy_body cmd s = None"
  proof (rule ccontr)
    assume "lazy_body cmd s \<noteq> None"
    then obtain b r where "lazy_body cmd s = Some (b, r)" by auto
    from lazy_body_Some[OF this] have "s = b @ r" "stop_at cmd r" by auto
    then have "stop_at cmd (drop (length b) s)" "length b \<le> length s" by auto
    with a show False by blast
  qed
qed

lemma lazy_body_dropWhile_iff:
  "lazy_body cmd (dropWhile is_space s) = None \<longleftrightarrow> lazy_body cmd s = None"
proof
  assume "lazy_body cmd (dropWhile is_space s) = None"
  then show "lazy_body cmd s = None" by (rule lazy_body_dropWhile_None)
next
  assume n: "lazy_body cmd s = None"
  show "lazy_body cmd (dropWhile is_space s) = None"
  proof (rule ccontr)
    assume "lazy_body cmd (dropWhile is_space s) \<noteq> None"
    then obtain b r where "lazy_body cmd (dropWhile is_space s) = Some (b, r)" by auto
    from lazy_body_Some[OF this] have "dropWhile is_space s = b @ r" "stop_at cmd r" by auto
    then have "s = (takeWhile is_space s @ b) @ r"
      by (metis append.assoc takeWhile_dropWhile_id)
    with lazy_body_suffix[OF \<open>stop_at cmd r\<close>, of "takeWhile is_space s @ b"] n
    show False by simp
  qed
qed

lemma match_at_found_iff:
  "match_at cmd title s \<noteq> None \<longleftrightarrow>
     (\<exists>star rest. (star = [] \<or> star = ''*'') \<and> s = heading cmd star title @ rest
        \<and> (\<exists>k\<le>length rest. stop_at cmd (drop k rest)))"
  (is "?L \<longleftrightarrow> ?R")
proof
  assume ?L
  then obtain h b r where "match_at cmd title s = Some (h, b, r)" by auto
  then obtain star rest where sr: "star = [] \<or> star = ''*''"
      "s = heading cmd star title @ rest"
      "lazy_body cmd (dropWhile is_space rest) = Some (b, r)"
    unfolding match_at_Some_iff by blast
  from sr(3) have "lazy_body cmd rest \<noteq> None"
    using lazy_body_dropWhile_iff[of cmd rest] by auto
  then have "\<exists>k\<le>length rest. stop_at cmd (drop k rest)"
    unfolding lazy_body_None_iff by blast
  with sr show ?R by blast
next
  assume ?R
  then obtain star rest where sr: "star = [] \<or> star = ''*''"
      "s = heading cmd star title @ rest"
      "\<exists>k\<le>length rest. stop_at cmd (drop k rest)" by blast
  from sr(3) have "lazy_body cmd rest \<noteq> None"
    unfolding lazy_body_None_iff by blast
  then have "lazy_body cmd (dropWhile is_space rest) \<noteq> None"
    using lazy_body_dropWhile_iff[of cmd rest] by auto
  then obtain b r where "lazy_body cmd (dropWhile is_space rest) = Some (b, r)" by auto
  with sr have "match_at cmd title s
      = Some (heading cmd star title @ takeWhile is_space rest, b, r)"
    unfolding match_at_Some_iff by blast
  then show ?L by simp
qed

lemma search_found_iff:
  "regex_search cmd title doc \<noteq> None \<longleftrightarrow> (\<exists>k\<le>length doc. match_at cmd title (drop k doc) \<noteq> None)"
  using regex_search_None_iff[of cmd title doc] by simp

lemma extract_found_iff:
  "extract_section_body doc title cmd \<noteq> None \<longleftrightarrow>
     (\<exists>pre star rest. (star = [] \<or> star = ''*'') \<and> doc = pre @ heading cmd star title @ rest
        \<and> (\<exists>k\<le>length rest. stop_at cmd (drop k rest)))"
  (is "?L \<longleftrightarrow> ?R")
proof
  assume ?L
  then have "regex_search cmd title doc \<noteq> None"
    by (simp add: extract_section_body_def)
  then obtain k where k: "k \<le> length doc" "match_at cmd title (drop k doc) \<noteq> None"
    unfolding search_found_iff by (elim exE conjE)
  from k(2) obtain star rest j where
    sr: "star = [] \<or> star = ''*''" "drop k doc = heading cmd star title @ rest"
        "j \<le> length rest \<and> stop_at cmd (drop j rest)"
    unfolding match_at_found_iff by (elim exE conjE) (rule that, assumption+, rule conjI)
  have "take k doc @ drop k doc = doc" by (rule append_take_drop_id)
  then have "doc = take k doc @ heading cmd star title @ rest"
    by (simp only: sr(2))
  with sr(1,3) show ?R by (intro exI conjI) auto
next
  assume ?R
  then obtain pre star rest j where
    sr: "star = [] \<or> star = ''*''" "doc = pre @ heading cmd star title @ rest"
        "j \<le> length rest \<and> stop_at cmd (drop j rest)"
    by (elim exE conjE) (rule that, assumption+, rule conjI)
  have d: "drop (length pre) doc = heading cmd star title @ rest"
    by (simp add: sr(2))
  have "match_at cmd title (drop (length pre) doc) \<noteq> None"
    unfolding match_at_found_iff using sr(1,3) d by (intro exI conjI) auto
  moreover have "length pre \<le> length doc" by (simp add: sr(2))
  ultimately have "regex_search cmd title doc \<noteq> None"
    unfolding search_found_iff by (intro exI conjI) auto
  then show ?L by (simp add: extract_section_body_def)
qed

lemma length_heading: "length (heading cmd star title) = length cmd + length star + length title + 3"
  by (simp add: heading_def)

lemma append_prefix_split:
  "a @ b = c @ d \<Longrightarrow> length c \<le> length a \<Longrightarrow> \<exists>v. a = c @ v"
proof -
  assume e: "a @ b = c @ d" and l: "length c \<le> length a"
  have "take (length c) (a @ b) = c" using e by simp
  then have "take (length c) a = c" using l by simp
  then have "a = c @ drop (length c) a" by (metis append_take_drop_id)
  then show ?thesis ..
qed

lemma regex_search_parts:
  assumes "regex_search cmd title doc = Some (p, h, b, r)"
  obtains star rest where
    "star = [] \<or> star = ''*''"
    "doc = p @ heading cmd star title @ rest"
    "h = heading cmd star title @ takeWhile is_space rest"
    "dropWhile is_space rest = b @ r"
    "stop_at cmd r"
    "\<forall>k<length b. \<not> stop_at cmd (drop k (b @ r))"
    "\<forall>k<length p. match_at cmd title (drop k doc) = None"
proof -
  from regex_search_Some[OF assms] obtain u where u: "doc = p @ u"
    "match_at cmd title u = Some (h, b, r)"
    "\<forall>k<length p. match_at cmd title (drop k doc) = None" by (elim exE conjE)
  from u(2) obtain star rest where sr: "star = [] \<or> star = ''*''"
    "u = heading cmd star title @ rest"
    "h = heading cmd star title @ takeWhile is_space rest"
    "lazy_body cmd (dropWhile is_space rest) = Some (b, r)"
    unfolding match_at_Some_iff by (elim exE conjE)
  note L = lazy_body_Some[OF sr(4)]
  note lb = L[THEN conjunct1] L[THEN conjunct2, THEN conjunct1] L[THEN conjunct2, THEN conjunct2]
  have d: "doc = p @ heading cmd star title @ rest" by (simp add: u(1) sr(2))
  have lb3: "\<forall>k<length b. \<not> stop_at cmd (drop k (b @ r))" using lb(3) unfolding lb(1) .
  show thesis
    by (rule that[OF sr(1) d sr(3) lb(1) lb(2) lb3 u(3)])
qed

lemma found_text: 
  assumes a: "regex_search cmd title doc = Some (p, h, b, r)"
  shows "doc = p @ h @ b @ r"
proof -
  from a obtain star rest where sr: "doc = p @ heading cmd star title @ rest"
    "h = heading cmd star title @ takeWhile is_space rest"
    "dropWhile is_space rest = b @ r" by (rule regex_search_parts)
  have "takeWhile is_space rest @ dropWhile is_space rest = rest"
    by (rule takeWhile_dropWhile_id)
  then have "rest = takeWhile is_space rest @ b @ r" by (simp only: sr(3))
  then have "doc = p @ heading cmd star title @ takeWhile is_space rest @ b @ r"
    using sr(1) by simp
  then show ?thesis by (simp add: sr(2))
qed

lemma found_body_lstrip:
  assumes "regex_search cmd title doc = Some (p, h, b, r)"
  shows "lstrip b = b"
proof (cases b)
  case Nil
  then show ?thesis by (simp add: lstrip_def)
next
  case (Cons x xs)
  from assms obtain star rest where sr: "dropWhile is_space rest = b @ r"
    by (rule regex_search_parts)
  have ne: "dropWhile is_space rest \<noteq> []" using sr Cons by simp
  have "\<not> is_space (hd (dropWhile is_space rest))"
    using ne by (rule hd_dropWhile)
  then have "\<not> is_space x" using sr Cons by simp
  then show ?thesis using Cons by (simp add: lstrip_def)
qed

lemma search_after_splice:
  assumes s: "regex_search cmd title doc = Some (p, h, b, r)"
    and nb: "nb \<noteq> []" "\<not> is_space (hd nb)"
    and free: "\<forall>k<length nb. \<not> stop_at cmd (drop k (nb @ newline # r))"
  shows "regex_search cmd title (p @ h @ nb @ newline # r) = Some (p, h, nb @ [newline], r)"
proof -
  from s obtain star rest where sr:
    "star = [] \<or> star = ''*''"
    "doc = p @ heading cmd star title @ rest"
    "h = heading cmd star title @ takeWhile is_space rest"
    "dropWhile is_space rest = b @ r"
    "stop_at cmd r"
    "\<forall>k<length p. match_at cmd title (drop k doc) = None"
    by (rule regex_search_parts)
  define H where "H = heading cmd star title"
  define ws where "ws = takeWhile is_space rest"
  define nb' where "nb' = nb @ [newline]"
  have h: "h = H @ ws" by (simp add: sr(3) H_def ws_def)
  have "takeWhile is_space rest @ dropWhile is_space rest = rest"
    by (rule takeWhile_dropWhile_id)
  then have rest: "rest = ws @ b @ r" by (simp only: sr(4) ws_def)
  have ws_sp: "\<forall>x\<in>set ws. is_space x"
    unfolding ws_def by (auto dest: set_takeWhileD)
  obtain n0 ns where nbc: "nb = n0 # ns" "\<not> is_space n0"
    using nb by (cases nb) auto
  have nb'c: "nb' = n0 # ns @ [newline]" by (simp add: nb'_def nbc)
  have "\<not> stop_at cmd (drop k (nb' @ r))" if "k < length nb'" for k
  proof (cases "k < length nb")
    case True
    with free show ?thesis by (simp add: nb'_def)
  next
    case False
    with that have "k = length nb" by (simp add: nb'_def)
    then have "drop k (nb' @ r) = newline # r" by (simp add: nb'_def)
    moreover have "\<not> stop_at cmd (newline # r)"
    proof
      assume "stop_at cmd (newline # r)"
      from stop_at_bslash[OF this] show False by simp
    qed
    ultimately show ?thesis by simp
  qed
  then have all: "\<forall>k<length nb'. \<not> stop_at cmd (drop k (nb' @ r))" by simp
  have lb: "lazy_body cmd (nb' @ r) = Some (nb', r)"
    by (rule lazy_body_intro[OF sr(5) all])
  have tw: "takeWhile is_space (ws @ nb' @ r) = ws"
    using ws_sp nbc(2) by (simp add: takeWhile_append2 nb'c)
  have dw: "dropWhile is_space (ws @ nb' @ r) = nb' @ r"
    using ws_sp nbc(2) by (simp add: dropWhile_append2 nb'c)
  have m: "match_at cmd title (H @ ws @ nb' @ r) = Some (h, nb', r)"
  proof (subst match_at_Some_iff, intro exI conjI)
    show "star = [] \<or> star = ''*''" by (rule sr(1))
    show "H @ ws @ nb' @ r = heading cmd star title @ (ws @ nb' @ r)" by (simp add: H_def)
    show "h = heading cmd star title @ takeWhile is_space (ws @ nb' @ r)"
      by (simp only: tw h H_def)
    show "lazy_body cmd (dropWhile is_space (ws @ nb' @ r)) = Some (nb', r)"
      by (simp only: dw lb)
  qed
  have early: "match_at cmd title (drop k (p @ H @ ws @ nb' @ r)) = None"
    if k: "k < length p" for k
  proof (rule ccontr)
    assume "match_at cmd title (drop k (p @ H @ ws @ nb' @ r)) \<noteq> None"
    then obtain star2 rest2 where s2: "star2 = [] \<or> star2 = ''*''"
      "drop k (p @ H @ ws @ nb' @ r) = heading cmd star2 title @ rest2"
      unfolding match_at_found_iff by (elim exE conjE)
    define q where "q = drop k p"
    have q: "1 \<le> length q" using k by (simp add: q_def)
    have e: "(q @ H) @ (ws @ nb' @ r) = heading cmd star2 title @ rest2"
      using s2(2) k by (simp add: q_def)
    have "length star2 \<le> 1" using s2(1) by auto
    then have "length (heading cmd star2 title) \<le> length (q @ H)"
      using q by (simp add: length_heading H_def)
    from append_prefix_split[OF e this] obtain v where v: "q @ H = heading cmd star2 title @ v"
      by (elim exE)
    have "drop k doc = (q @ H) @ rest"
      using k by (simp add: sr(2) q_def H_def)
    then have d: "drop k doc = heading cmd star2 title @ (v @ ws @ b) @ r"
      by (simp add: v rest)
    have "match_at cmd title (drop k doc) \<noteq> None"
    proof (subst match_at_found_iff, intro exI conjI)
      show "star2 = [] \<or> star2 = ''*''" by (rule s2(1))
      show "drop k doc = heading cmd star2 title @ (v @ ws @ b) @ r" by (rule d)
      show "length (v @ ws @ b) \<le> length ((v @ ws @ b) @ r)" by simp
      show "stop_at cmd (drop (length (v @ ws @ b)) ((v @ ws @ b) @ r))"
        using sr(5) by simp
    qed
    moreover have "match_at cmd title (drop k doc) = None" using sr(6) k by simp
    ultimately show False by simp
  qed
  then have all_early: "\<forall>k<length p. match_at cmd title (drop k (p @ H @ ws @ nb' @ r)) = None"
    by simp
  have "regex_search cmd title (p @ (H @ ws @ nb' @ r)) = Some (p, h, nb', r)"
    by (rule regex_search_intro[OF m all_early])
  then show ?thesis by (simp add: h nb'_def)
qed

lemmas eval_defs = match_at_eq title_body_eq stop_at_eq cmd_token_def startswith_def
  is_space_def word_boundary_def is_word_def

lemma occurs_in_iff: "occurs_in p s \<longleftrightarrow> (\<exists>pre post. s = pre @ p @ post)"
proof (induction s)
  case Nil
  then show ?case by auto
next
  case (Cons c cs)
  have "(\<exists>pre post. c # cs = pre @ p @ post) \<longleftrightarrow>
        (\<exists>post. c # cs = p @ post) \<or> (\<exists>pre post. cs = pre @ p @ post)"
    (is "?A \<longleftrightarrow> ?B \<or> ?C")
  proof
    assume ?A
    then obtain pre post where e: "c # cs = pre @ p @ post" by blast
    show "?B \<or> ?C"
    proof (cases pre)
      case Nil
      with e show ?thesis by auto
    next
      case (Cons a pre')
      with e have "cs = pre' @ p @ post" by simp
      then show ?thesis by blast
    qed
  next
    assume "?B \<or> ?C"
    then show ?A
    proof
      assume ?B
      then obtain post where "c # cs = [] @ p @ post" by auto
      then show ?A by blast
    next
      assume ?C
      then obtain pre post where "cs = pre @ p @ post" by blast
      then have "c # cs = (c # pre) @ p @ post" by simp
      then show ?A by blast
    qed
  qed
  moreover have "strip_prefix p (c # cs) \<noteq> None \<longleftrightarrow> (\<exists>post. c # cs = p @ post)"
    using strip_prefix_Some_iff[of p "c # cs"] by auto
  ultimately show ?case using Cons.IH by simp
qed

lemma extract_skip:
  "match_at cmd title (x # xs) = None \<Longrightarrow>
     extract_section_body (x # xs) title cmd = extract_section_body xs title cmd"
  by (cases "regex_search cmd title xs") (auto simp: extract_section_body_def)

section \<open>Claims about the locator and the replacer\<close>

text \<open>
  C2. For the document \<open>\section{SKILLS}\nPython, Go\n\section{PROJECTS}\n...\<close>, whatever
  follows the second heading, locating the title SKILLS with the command \<open>section\<close>
  returns the body \<open>Python, Go\n\<close>; replacing that body with \<open>Rust, C++\<close> yields the
  same document with the body \<open>Rust, C++\n\<close>, in which the SKILLS body is located as
  \<open>Rust, C++\n\<close> and the PROJECTS heading and everything after it are as before.
\<close>

theorem skills_scenario:
  "extract_section_body (skills_doc ''Python, Go\<newline>'' rest) ''SKILLS'' ''section''
     = Some ''Python, Go\<newline>''
   \<and> replace_section (skills_doc ''Python, Go\<newline>'' rest) ''SKILLS'' ''section'' ''Rust, C++''
     = (skills_doc ''Rust, C++\<newline>'' rest, 1)
   \<and> extract_section_body (skills_doc ''Rust, C++\<newline>'' rest) ''SKILLS'' ''section''
     = Some ''Rust, C++\<newline>''
   \<and> extract_section_body (skills_doc ''Rust, C++\<newline>'' rest) ''PROJECTS'' ''section''
     = extract_section_body (skills_doc ''Python, Go\<newline>'' rest) ''PROJECTS'' ''section''"
proof -
  have a: "regex_search ''section'' ''SKILLS'' (skills_doc ''Python, Go\<newline>'' rest)
      = Some ([], bslash # ''section{SKILLS}\<newline>'', ''Python, Go\<newline>'',
              bslash # ''section{PROJECTS}\<newline>'' @ rest)"
    unfolding skills_doc_def by (simp add: eval_defs)
  have b: "regex_search ''section'' ''SKILLS'' (skills_doc ''Rust, C++\<newline>'' rest)
      = Some ([], bslash # ''section{SKILLS}\<newline>'', ''Rust, C++\<newline>'',
              bslash # ''section{PROJECTS}\<newline>'' @ rest)"
    unfolding skills_doc_def by (simp add: eval_defs)
  have n: "strip (normalize_latex_content ''Rust, C++'') = ''Rust, C++''"
    by (simp add: strip_def lstrip_def rstrip_def is_space_def)
  have c: "extract_section_body (skills_doc ''Rust, C++\<newline>'' rest) ''PROJECTS'' ''section''
     = extract_section_body (skills_doc ''Python, Go\<newline>'' rest) ''PROJECTS'' ''section''"
    unfolding skills_doc_def
    by (simp add: extract_skip match_at_eq title_body_eq)
  have d: "replace_section (skills_doc ''Python, Go\<newline>'' rest) ''SKILLS'' ''section'' ''Rust, C++''
     = (skills_doc ''Rust, C++\<newline>'' rest, 1)"
    using n by (simp add: replace_section_def a) (simp add: skills_doc_def)
  show ?thesis
    by (intro conjI c d) (simp_all add: extract_section_body_def a b)
qed

text \<open>
  C1. The claim is that a \<open>\subsubsection\<close> heading ends the body of a section located
  with another command. The lookahead of the pattern has no alternative for it: on the
  text below the body of section A runs through the \<open>\subsubsection\<close> heading up to the
  next \<open>\section\<close>.
\<close>

theorem subsubsection_not_boundary:
  "extract_section_body
     (bslash # ''section{A}\<newline>x\<newline>'' @ bslash # ''subsubsection{B}\<newline>y\<newline>''
        @ bslash # ''section{C}\<newline>'') ''A'' ''section''
   = Some (''x\<newline>'' @ bslash # ''subsubsection{B}\<newline>y\<newline>'')"
  by (simp add: extract_section_body_def eval_defs)

text \<open>
  C5. Not-found is a normal outcome without mutation: when the heading text occurs
  nowhere in the document the locator returns \<open>None\<close>, and whenever the locator returns
  \<open>None\<close> the replacer returns the document unchanged with no substitution and the
  file is not written.
\<close>

theorem not_found_unchanged:
  "(\<not> occurs_in (heading cmd [] title) doc \<and> \<not> occurs_in (heading cmd ''*'' title) doc
      \<longrightarrow> extract_section_body doc title cmd = None)
   \<and> (extract_section_body doc title cmd = None
      \<longrightarrow> replace_section doc title cmd new_body = (doc, 0)
        \<and> (files path = Some stored \<and> universal_newlines stored = doc
           \<longrightarrow> update_overleaf_section linesep files path title new_body cmd
                 = (Section_Not_Found, files)))"
proof (intro conjI impI)
  assume h: "\<not> occurs_in (heading cmd [] title) doc \<and> \<not> occurs_in (heading cmd ''*'' title) doc"
  show "extract_section_body doc title cmd = None"
  proof (rule ccontr)
    assume "extract_section_body doc title cmd \<noteq> None"
    then obtain pre star rest where
      "star = [] \<or> star = ''*''" "doc = pre @ heading cmd star title @ rest"
      unfolding extract_found_iff by (elim exE conjE)
    then have "occurs_in (heading cmd [] title) doc \<or> occurs_in (heading cmd ''*'' title) doc"
      unfolding occurs_in_iff by auto
    with h show False by simp
  qed
next
  assume n: "extract_section_body doc title cmd = None"
  then show r: "replace_section doc title cmd new_body = (doc, 0)"
    by (simp add: extract_section_body_def replace_section_def)
  assume "files path = Some stored \<and> universal_newlines stored = doc"
  with r show "update_overleaf_section linesep files path title new_body cmd
      = (Section_Not_Found, files)"
    by (simp add: update_overleaf_section_def)
qed

text \<open>
  The scenario of C5: the title Intro requested against a document that contains only
  \<open>\chapter{Other}\<close>.
\<close>

theorem not_found_unchanged_witness:
  "extract_section_body (bslash # ''chapter{Other}'') ''Intro'' ''chapter'' = None
   \<and> replace_section (bslash # ''chapter{Other}'') ''Intro'' ''chapter'' ''new text''
       = (bslash # ''chapter{Other}'', 0)
   \<and> update_overleaf_section [newline] [''main.tex'' \<mapsto> bslash # ''chapter{Other}'']
         ''main.tex'' ''Intro'' ''new text'' ''chapter''
       = (Section_Not_Found, [''main.tex'' \<mapsto> bslash # ''chapter{Other}''])"
proof -
  have h: "\<not> occurs_in (heading ''chapter'' [] ''Intro'') (bslash # ''chapter{Other}'')
      \<and> \<not> occurs_in (heading ''chapter'' ''*'' ''Intro'') (bslash # ''chapter{Other}'')"
    by (simp add: heading_def)
  have f: "[''main.tex'' \<mapsto> bslash # ''chapter{Other}''] ''main.tex''
        = Some (bslash # ''chapter{Other}'')
      \<and> universal_newlines (bslash # ''chapter{Other}'') = bslash # ''chapter{Other}''"
    by simp
  show ?thesis
    using not_found_unchanged [of "''chapter''" "''Intro''" "bslash # ''chapter{Other}''"
       "''new text''" "[''main.tex'' \<mapsto> bslash # ''chapter{Other}'']" "''main.tex''"
       "bslash # ''chapter{Other}''" "[newline]"] h f
    by blast
qed

text \<open>
  C7, as amended. The command and the title are matched literally: their escaped forms
  are read back by the pattern compiler as the texts themselves; the locator finds a
  section only if the text \<open>\CMD{TITLE}\<close> or \<open>\CMD*{TITLE}\<close> occurs in the document
  with a heading token somewhere after it; and it finds one whenever such an occurrence
  has, somewhere after it, the requested command, \<open>\section\<close>, \<open>\subsection\<close>,
  \<open>\chapter\<close> or \<open>\cvsection\<close> at a word boundary, or \<open>\end{document}\<close>.
\<close>

theorem locate_literal_heading:
  "pattern_literal (re_escape cmd) = Some cmd \<and> pattern_literal (re_escape title) = Some title
   \<and> (extract_section_body doc title cmd \<noteq> None \<longrightarrow>
        (\<exists>pre star rest. (star = [] \<or> star = ''*'') \<and> doc = pre @ heading cmd star title @ rest
           \<and> (\<exists>k\<le>length rest. heading_token_at cmd (drop k rest))))
   \<and> ((\<exists>pre star rest. (star = [] \<or> star = ''*'') \<and> doc = pre @ heading cmd star title @ rest
           \<and> (\<exists>k\<le>length rest. stop_at cmd (drop k rest)))
        \<longrightarrow> extract_section_body doc title cmd \<noteq> None)"
proof (intro conjI impI)
  show "pattern_literal (re_escape cmd) = Some cmd" by (rule pattern_literal_escape)
  show "pattern_literal (re_escape title) = Some title" by (rule pattern_literal_escape)
next
  assume "extract_section_body doc title cmd \<noteq> None"
  then obtain pre star rest k where
    f: "star = [] \<or> star = ''*''" "doc = pre @ heading cmd star title @ rest"
       "k \<le> length rest \<and> stop_at cmd (drop k rest)"
    unfolding extract_found_iff by (elim exE conjE) (rule that, assumption+, rule conjI)
  from f(3) have g: "k \<le> length rest" "heading_token_at cmd (drop k rest)"
    by (simp_all add: heading_token_at_def)
  show "\<exists>pre star rest. (star = [] \<or> star = ''*'')
      \<and> doc = pre @ heading cmd star title @ rest
      \<and> (\<exists>k\<le>length rest. heading_token_at cmd (drop k rest))"
  proof (intro exI conjI)
    show "star = [] \<or> star = ''*''" by (rule f(1))
    show "doc = pre @ heading cmd star title @ rest" by (rule f(2))
    show "k \<le> length rest" by (rule g(1))
    show "heading_token_at cmd (drop k rest)" by (rule g(2))
  qed
next
  assume "\<exists>pre star rest. (star = [] \<or> star = ''*'') \<and> doc = pre @ heading cmd star title @ rest
           \<and> (\<exists>k\<le>length rest. stop_at cmd (drop k rest))"
  then show "extract_section_body doc title cmd \<noteq> None" by (simp only: extract_found_iff)
qed

text \<open>
  A title and a command full of pattern metacharacters are found as they are written.
\<close>

theorem locate_literal_heading_witness:
  "extract_section_body
      (bslash # ''sec.tion{C++ (a|b)*}\<newline>x\<newline>'' @ bslash # ''end{document}'')
      ''C++ (a|b)*'' ''sec.tion'' = Some ''x\<newline>''
   \<and> extract_section_body
      (bslash # ''secXtion{C++ (a|b)*}\<newline>x\<newline>'' @ bslash # ''end{document}'')
      ''C++ (a|b)*'' ''sec.tion'' = None
   \<and> pattern_literal (re_escape ''C++ (a|b)*'') = Some ''C++ (a|b)*''
   \<and> (\<exists>pre star rest. (star = [] \<or> star = ''*'')
        \<and> bslash # ''sec.tion{C++ (a|b)*}\<newline>x\<newline>'' @ bslash # ''end{document}''
            = pre @ heading ''sec.tion'' star ''C++ (a|b)*'' @ rest
        \<and> (\<exists>k\<le>length rest. heading_token_at ''sec.tion'' (drop k rest)))"
proof -
  have a: "extract_section_body
      (bslash # ''sec.tion{C++ (a|b)*}\<newline>x\<newline>'' @ bslash # ''end{document}'')
      ''C++ (a|b)*'' ''sec.tion'' = Some ''x\<newline>''"
    by (simp add: extract_section_body_def eval_defs)
  have b: "extract_section_body
      (bslash # ''secXtion{C++ (a|b)*}\<newline>x\<newline>'' @ bslash # ''end{document}'')
      ''C++ (a|b)*'' ''sec.tion'' = None"
    by (simp add: extract_section_body_def eval_defs)
  show ?thesis
    using a b locate_literal_heading
      [of "''sec.tion''" "''C++ (a|b)*''"
          "bslash # ''sec.tion{C++ (a|b)*}\<newline>x\<newline>'' @ bslash # ''end{document}''"]
    by simp
qed

text \<open>
  C7 as stated fails: the heading text occurs in a document that has no heading token
  of any kind after it, and the locator finds nothing.
\<close>

theorem locate_iff_heading_counterexample:
  "occurs_in (heading ''section'' [] ''A'') (bslash # ''section{A}\<newline>body'')
   \<and> extract_section_body (bslash # ''section{A}\<newline>body'') ''A'' ''section'' = None"
  by (simp add: extract_section_body_def heading_def eval_defs)

lemma rstrip_decomp: "\<exists>w. s = rstrip s @ w \<and> list_all is_space w"
proof -
  have "rev (takeWhile is_space (rev s) @ dropWhile is_space (rev s)) = rev (rev s)"
    by (simp only: takeWhile_dropWhile_id)
  then have "s = rstrip s @ rev (takeWhile is_space (rev s))"
    by (simp only: rev_append rev_rev_ident rstrip_def)
  moreover have "list_all is_space (rev (takeWhile is_space (rev s)))"
    by (auto simp: list_all_iff dest: set_takeWhileD)
  ultimately show ?thesis by blast
qed

lemma strip_hd: "strip s \<noteq> [] \<Longrightarrow> \<not> is_space (hd (strip s))"
proof -
  assume ne: "strip s \<noteq> []"
  define t where "t = dropWhile is_space s"
  obtain w where w: "t = rstrip t @ w" using rstrip_decomp by blast
  have st: "strip s = rstrip t" by (simp add: strip_def lstrip_def t_def)
  with ne w have "t \<noteq> []" by auto
  then have "\<not> is_space (hd t)" unfolding t_def by (rule hd_dropWhile)
  moreover have "hd t = hd (rstrip t)" using w ne st by (metis hd_append2)
  ultimately show ?thesis using st by simp
qed

lemma token_inside_free:
  "\<not> token_inside cmd nb r \<Longrightarrow> \<forall>k<length nb. \<not> stop_at cmd (drop k (nb @ newline # r))"
  by (auto simp: token_inside_def heading_token_at_def list_ex_iff)

lemma replace_found:
  "regex_search cmd title doc = Some (p, h, b, r) \<Longrightarrow>
     replace_section doc title cmd new_body
       = (p @ h @ strip (normalize_latex_content new_body) @ [newline] @ r, 1)"
  by (simp add: replace_section_def)

text \<open>
  C3, as amended. When the section is not found, or the trimmed normalized new body is not
  empty and no heading token (the requested command, \<open>\section\<close>, \<open>\subsection\<close>,
  \<open>\subsubsection\<close>, \<open>\chapter\<close>, \<open>\cvsection\<close>, or \<open>\end{document}\<close>) starts inside
  it, replacing twice with the same arguments yields the same document as replacing once,
  and in that document the body of a section that was found is the trimmed normalized new
  body followed by one line feed.
\<close>

theorem replace_twice:
  assumes "splice_safe cmd title doc (strip (normalize_latex_content new_body))"
  shows "replace_section (fst (replace_section doc title cmd new_body)) title cmd new_body
       = replace_section doc title cmd new_body
     \<and> (extract_section_body doc title cmd \<noteq> None \<longrightarrow>
          extract_section_body (fst (replace_section doc title cmd new_body)) title cmd
            = Some (strip (normalize_latex_content new_body) @ [newline]))"
proof (cases "regex_search cmd title doc")
  case None
  then show ?thesis by (simp add: replace_section_def extract_section_body_def)
next
  case (Some m)
  obtain p h b r where m: "m = (p, h, b, r)" by (cases m) auto
  define nb where "nb = strip (normalize_latex_content new_body)"
  have s: "regex_search cmd title doc = Some (p, h, b, r)" using Some m by simp
  from assms have safe: "nb \<noteq> []" "\<not> token_inside cmd nb r"
    by (simp_all add: splice_safe_def s nb_def)
  have hd: "\<not> is_space (hd nb)" using safe(1) unfolding nb_def by (rule strip_hd)
  have free: "\<forall>k<length nb. \<not> stop_at cmd (drop k (nb @ newline # r))"
    using safe(2) by (rule token_inside_free)
  have s2: "regex_search cmd title (p @ h @ nb @ newline # r) = Some (p, h, nb @ [newline], r)"
    by (rule search_after_splice[OF s safe(1) hd free])
  have r1: "replace_section doc title cmd new_body = (p @ h @ nb @ newline # r, 1)"
    using replace_found[OF s, of new_body] by (simp add: nb_def)
  have r2: "replace_section (p @ h @ nb @ newline # r) title cmd new_body
      = (p @ h @ nb @ newline # r, 1)"
    using replace_found[OF s2, of new_body] by (simp add: nb_def)
  have e2: "extract_section_body (p @ h @ nb @ newline # r) title cmd = Some (nb @ [newline])"
    by (simp add: extract_section_body_def s2)
  show ?thesis by (simp add: r1 r2 e2 nb_def[symmetric])
qed

theorem replace_twice_witness:
  "replace_section (fst (replace_section old_doc ''A'' ''section'' ''Rust, C++'')) ''A'' ''section'' ''Rust, C++''
       = replace_section old_doc ''A'' ''section'' ''Rust, C++''
   \<and> extract_section_body (fst (replace_section old_doc ''A'' ''section'' ''Rust, C++'')) ''A'' ''section''
       = Some ''Rust, C++\<newline>''"
proof -
  have h: "splice_safe ''section'' ''A'' old_doc (strip (normalize_latex_content ''Rust, C++''))"
    by code_simp
  have f: "extract_section_body old_doc ''A'' ''section'' \<noteq> None" by code_simp
  have n: "strip (normalize_latex_content ''Rust, C++'') = ''Rust, C++''" by code_simp
  show ?thesis
    using replace_twice[OF h] f n by simp
qed

text \<open>
  C3 as stated fails for an empty new body (the line feed written after the heading joins
  the heading's trailing whitespace, and every substitution adds one more) and for a new
  body with a \<open>\subsection\<close> heading in it (the second substitution replaces only the
  part before that heading).
\<close>

theorem replace_twice_counterexample:
  "replace_section (fst (replace_section old_doc ''A'' ''section'' [])) ''A'' ''section'' []
     \<noteq> replace_section old_doc ''A'' ''section'' []
   \<and> replace_section (fst (replace_section old_doc ''A'' ''section'' sub_body)) ''A'' ''section'' sub_body
     \<noteq> replace_section old_doc ''A'' ''section'' sub_body"
  by code_simp

text \<open>
  C4, as amended. Replacing a located body \<open>b\<close> with itself leaves the text before the
  match, the heading and the text after the body as they are and writes
  \<open>normalize(b).strip() + "\n"\<close> in between; when \<open>b\<close> holds no backslash followed by
  \<open>n\<close>, that is \<open>b\<close> with its trailing whitespace replaced by one line feed.
\<close>

theorem replace_own_body:
  assumes "regex_search cmd title doc = Some (p, h, b, r)"
  shows "doc = p @ h @ b @ r
     \<and> replace_section doc title cmd b
         = (p @ h @ strip (normalize_latex_content b) @ [newline] @ r, 1)
     \<and> (\<not> has_bslash_n b \<longrightarrow>
          strip (normalize_latex_content b) = rstrip b
          \<and> (\<exists>w. b = rstrip b @ w \<and> list_all is_space w))"
proof (intro conjI impI)
  show "doc = p @ h @ b @ r" using assms by (rule found_text)
  show "replace_section doc title cmd b
         = (p @ h @ strip (normalize_latex_content b) @ [newline] @ r, 1)"
    using assms by (rule replace_found)
  assume "\<not> has_bslash_n b"
  then have "normalize_latex_content b = b" by (rule normalize_free)
  then show "strip (normalize_latex_content b) = rstrip b"
    using found_body_lstrip[OF assms] by (simp add: strip_def)
  show "\<exists>w. b = rstrip b @ w \<and> list_all is_space w" by (rule rstrip_decomp)
qed

theorem replace_own_body_witness:
  "replace_section (bslash # ''section{A}\<newline>Hello  \<newline>\<newline>'' @ bslash # ''section{B}'')
       ''A'' ''section'' ''Hello  \<newline>\<newline>''
     = (bslash # ''section{A}\<newline>Hello\<newline>'' @ bslash # ''section{B}'', 1)
   \<and> strip (normalize_latex_content ''Hello  \<newline>\<newline>'') = rstrip ''Hello  \<newline>\<newline>''"
proof -
  have h: "regex_search ''section'' ''A''
      (bslash # ''section{A}\<newline>Hello  \<newline>\<newline>'' @ bslash # ''section{B}'')
      = Some ([], bslash # ''section{A}\<newline>'', ''Hello  \<newline>\<newline>'', bslash # ''section{B}'')"
    by code_simp
  have f: "\<not> has_bslash_n ''Hello  \<newline>\<newline>''" by code_simp
  have n: "strip (normalize_latex_content ''Hello  \<newline>\<newline>'') = ''Hello''" by code_simp
  show ?thesis
    using replace_own_body[OF h] f n by simp
qed

text \<open>
  C4 as stated fails for a body with a command that starts with \<open>n\<close>: the normalizer
  turns \<open>\noindent\<close> into a backslash, a line feed and \<open>oindent\<close>.
\<close>

theorem replace_own_body_counterexample:
  "extract_section_body noindent_doc ''A'' ''section'' = Some (bslash # ''noindent Hi\<newline>'')
   \<and> extract_section_body
        (fst (replace_section noindent_doc ''A'' ''section'' (bslash # ''noindent Hi\<newline>'')))
        ''A'' ''section''
      = Some (bslash # ''\<newline>oindent Hi\<newline>'')
   \<and> rstrip (bslash # ''\<newline>oindent Hi\<newline>'') \<noteq> rstrip (bslash # ''noindent Hi\<newline>'')"
  by code_simp

section \<open>Claims about the preview and the summarizer\<close>

text \<open>
  C8. The preview emits no output line for an input line that is blank after trimming,
  that starts with the comment marker, or that starts with \<open>\documentclass\<close>,
  \<open>\usepackage\<close>, \<open>\begin{document}\<close> or \<open>\end{document}\<close>: such a line appends
  nothing to the output, and the preview of a document with such a line among its lines
  is the preview of the other lines alone, the same as that of any document made of
  just those.
\<close>

theorem preview_drops_line:
  assumes "splitlines doc = before @ line # after"
    and "strip line = [] \<or> startswith (strip line) ''%''
     \<or> startswith (strip line) (bslash # ''documentclass'')
     \<or> startswith (strip line) (bslash # ''usepackage'')
     \<or> startswith (strip line) (bslash # ''begin{document}'')
     \<or> startswith (strip line) (bslash # ''end{document}'')"
  shows "preview_line up line = []
     \<and> latex_preview up doc = strip (join [newline] (preview_out up (before @ after)))
     \<and> (splitlines doc' = before @ after \<longrightarrow> latex_preview up doc = latex_preview up doc')"
proof -
  have l: "preview_line up line = []"
    using assms(2) unfolding preview_line_def Let_def by auto
  then have "preview_out up (before @ line # after) = preview_out up (before @ after)"
    by (simp add: preview_out_def)
  then have "latex_preview up doc = strip (join [newline] (preview_out up (before @ after)))"
    by (simp add: latex_preview_def assms(1))
  with l show ?thesis by (simp add: latex_preview_def)
qed

theorem preview_drops_line_witness:
  "splitlines ''a\<newline>  % note\<newline>b'' = [''a''] @ ''  % note'' # [''b'']
   \<and> preview_line (\<lambda>t. t) ''  % note'' = []
   \<and> latex_preview (\<lambda>t. t) ''a\<newline>  % note\<newline>b'' = ''a\<newline>b''
   \<and> latex_preview (\<lambda>t. t) ''a\<newline>  % note\<newline>b'' = latex_preview (\<lambda>t. t) ''a\<newline>b''"
proof -
  have s: "splitlines ''a\<newline>  % note\<newline>b'' = [''a''] @ ''  % note'' # [''b'']" by code_simp
  have s': "splitlines ''a\<newline>b'' = [''a''] @ [''b'']" by code_simp
  have h: "startswith (strip ''  % note'') ''%''" by code_simp
  have v: "strip (join [newline] (preview_out (\<lambda>t. t) ([''a''] @ [''b'']))) = ''a\<newline>b''"
    by code_simp
  have d: "strip ''  % note'' = [] \<or> startswith (strip ''  % note'') ''%''
     \<or> startswith (strip ''  % note'') (bslash # ''documentclass'')
     \<or> startswith (strip ''  % note'') (bslash # ''usepackage'')
     \<or> startswith (strip ''  % note'') (bslash # ''begin{document}'')
     \<or> startswith (strip ''  % note'') (bslash # ''end{document}'')"
    using h by blast
  have v': "latex_preview (\<lambda>t. t) ''a\<newline>b'' = ''a\<newline>b''" by code_simp
  show ?thesis
    using preview_drops_line [OF s d, of "\<lambda>t. t" "''a\<newline>b''"] s s' v v' by simp
qed

text \<open>
  C6, as amended. On \<open>Built a system. It scales well. - Handles 1M requests.\n\<close> with at
  most three sentences the summary is the whole text,
  \<open>Built a system. It scales well. - Handles 1M requests.\<close>, and the example is the
  second sentence, \<open>It scales well.\<close>; the same holds when the text goes through the
  plain-text reducer first.
\<close>

theorem summarize_scenario:
  "summarize ''Built a system. It scales well. - Handles 1M requests.\<newline>'' 3
     = Summary ''Built a system. It scales well. - Handles 1M requests.'' ''It scales well.''
   \<and> summarize
        (strip_latex_to_plain ''Built a system. It scales well. - Handles 1M requests.\<newline>'') 3
     = Summary ''Built a system. It scales well. - Handles 1M requests.'' ''It scales well.''"
  by code_simp

text \<open>
  C6 as stated fails: the dash is inside the only line, so there is no bullet line, and
  the third piece is a sentence of the summary.
\<close>

theorem summarize_scenario_counterexample:
  "summarize ''Built a system. It scales well. - Handles 1M requests.\<newline>'' 3
     \<noteq> Summary ''Built a system. It scales well.'' ''- Handles 1M requests.''
   \<and> summarize
        (strip_latex_to_plain ''Built a system. It scales well. - Handles 1M requests.\<newline>'') 3
     \<noteq> Summary ''Built a system. It scales well.'' ''- Handles 1M requests.''"
  by code_simp

section \<open>Claims about the plain-text reducer\<close>

lemma linebreak_is_space: "is_linebreak c \<Longrightarrow> is_space c"
  by (auto simp: is_linebreak_def is_space_def)

lemma retained_not_linebreak: "is_linebreak c \<Longrightarrow> \<not> retained c"
  by (simp add: retained_def linebreak_is_space)

lemma retained_newline: "\<not> retained newline"
  by (simp add: retained_def is_space_def)

lemma lines_from_filter:
  "concat (map (filter retained) (lines_from cur s)) = filter retained (cur @ s)"
proof (induction cur s rule: lines_from.induct)
  case (1 cur)
  then show ?case by simp
next
  case (2 cur c cs)
  show ?case
  proof (cases "is_linebreak c")
    case False
    with 2(3) show ?thesis by simp
  next
    case lb: True
    then have nc: "\<not> retained c" by (rule retained_not_linebreak)
    show ?thesis
    proof (cases cs)
      case Nil
      with lb nc show ?thesis by simp
    next
      case (Cons x xs)
      show ?thesis
      proof (cases "c = CHR 0x0D \<and> x = newline")
        case True
        with 2(1)[OF lb Cons True] lb nc Cons retained_newline show ?thesis by simp
      next
        case False
        with 2(2)[OF lb Cons False] lb nc Cons show ?thesis by auto
      qed
    qed
  qed
qed

lemma join_filter:
  "filter retained (join [newline] xs) = concat (map (filter retained) xs)"
  by (induction "[newline]" xs rule: join.induct) (simp_all add: retained_newline)

lemma subseq_concat_filter:
  "subseq (concat (map f (filter Q xs))) (concat (map f xs))"
  by (induction xs) (auto intro: list_emb_append_mono subseq_drop_many)

lemma drop_comment_lines_subseq:
  "subseq (filter retained (drop_comment_lines s)) (filter retained s)"
proof -
  have "filter retained s = concat (map (filter retained) (splitlines s))"
    using lines_from_filter[of "[]" s] by (simp add: splitlines_def)
  then show ?thesis
    by (simp add: drop_comment_lines_def join_filter subseq_concat_filter)
qed

lemma re_sub_from_subseq:
  assumes m: "\<And>t n r. m t = Some (n, r) \<Longrightarrow>
      1 \<le> n \<and> subseq (filter P r) (filter P (take n t))"
  shows "subseq (filter P (re_sub_from m k s)) (filter P (drop k s))"
proof (induction s arbitrary: k)
  case Nil
  then show ?case by simp
next
  case (Cons c cs)
  show ?case
  proof (cases k)
    case (Suc k')
    with Cons.IH[of k'] show ?thesis by simp
  next
    case 0
    show ?thesis
    proof (cases "m (c # cs)")
      case None
      with 0 Cons.IH[of 0] show ?thesis by auto
    next
      case (Some a)
      obtain n r where a: "a = (n, r)" by (cases a) auto
      from m[of "c # cs" n r] Some a have n: "1 \<le> n"
        and sub: "subseq (filter P r) (filter P (take n (c # cs)))" by auto
      have d: "drop n (c # cs) = drop (n - 1) cs" using n by (cases n) auto
      have "subseq (filter P r @ filter P (re_sub_from m (n - 1) cs))
              (filter P (take n (c # cs)) @ filter P (drop (n - 1) cs))"
        by (rule list_emb_append_mono[OF sub Cons.IH])
      moreover have "filter P (take n (c # cs)) @ filter P (drop (n - 1) cs) = filter P (c # cs)"
        unfolding d[symmetric] filter_append[symmetric] by simp
      ultimately show ?thesis using 0 Some a by simp
    qed
  qed
qed

lemma re_sub_subseq:
  assumes "\<And>t n r. m t = Some (n, r) \<Longrightarrow>
      1 \<le> n \<and> subseq (filter P r) (filter P (take n t))"
  shows "subseq (filter P (re_sub m s)) (filter P s)"
  using re_sub_from_subseq[of m P 0 s, OF assms] by (simp add: re_sub_def)

lemma item_pat_ok:
  "item_pat t = Some (n, r) \<Longrightarrow> 1 \<le> n \<and> subseq (filter retained r) (filter retained (take n t))"
  by (auto simp: item_pat_def retained_def is_space_def split: option.splits)

lemma command_pat_ok:
  "command_pat t = Some (n, r) \<Longrightarrow> 1 \<le> n \<and> subseq (filter retained r) (filter retained (take n t))"
  by (auto simp: command_pat_def Let_def split: list.splits if_splits)

lemma blanks_pat_ok:
  "blanks_pat t = Some (n, r) \<Longrightarrow> 1 \<le> n \<and> subseq (filter retained r) (filter retained (take n t))"
  by (cases t) (auto simp: blanks_pat_def Let_def retained_def is_space_def split: if_splits)

lemma blank_lines_pat_ok:
  "blank_lines_pat t = Some (n, r) \<Longrightarrow> 1 \<le> n \<and> subseq (filter retained r) (filter retained (take n t))"
  by (auto simp: blank_lines_pat_def Let_def retained_newline split: list.splits if_splits)

lemma braces_arg_Some:
  "braces_arg n s = Some (n', a) \<Longrightarrow>
     n' = n + length a + 2 \<and> (\<exists>rest. s = CHR ''{'' # a @ CHR ''}'' # rest)"
proof -
  assume b: "braces_arg n s = Some (n', a)"
  then obtain r where s: "s = CHR ''{'' # r" and ne: "dropWhile (\<lambda>z. z \<noteq> CHR ''}'') r \<noteq> []"
    and a: "a = takeWhile (\<lambda>z. z \<noteq> CHR ''}'') r" and n': "n' = n + length a + 2"
    by (auto simp: braces_arg_def Let_def split: list.splits if_splits)
  from ne obtain y ys where d: "dropWhile (\<lambda>z. z \<noteq> CHR ''}'') r = y # ys"
    by (cases "dropWhile (\<lambda>z. z \<noteq> CHR ''}'') r") auto
  have "\<not> (hd (dropWhile (\<lambda>z. z \<noteq> CHR ''}'') r) \<noteq> CHR ''}'')"
    using ne by (rule hd_dropWhile)
  with d have y: "y = CHR ''}''" by simp
  have "r = takeWhile (\<lambda>z. z \<noteq> CHR ''}'') r @ dropWhile (\<lambda>z. z \<noteq> CHR ''}'') r" by simp
  then have "r = a @ CHR ''}'' # ys" using a d y by simp
  with s n' show ?thesis by simp
qed

lemma command_arg_pat_Some:
  assumes "command_arg_pat t = Some (n, a)"
  shows "\<exists>pre rest. t = pre @ CHR ''{'' # a @ CHR ''}'' # rest \<and> n = length pre + length a + 2"
proof -
  from assms obtain r where t: "t = bslash # r"
    by (cases t) (auto simp: command_arg_pat_def split: if_splits)
  define name where "name = takeWhile is_ascii_letter r"
  define r1 where "r1 = dropWhile is_ascii_letter r"
  define star where "star = (case r1 of [] \<Rightarrow> [] | x # xs \<Rightarrow> if x = CHR ''*'' then [x] else [])"
  define r2 where "r2 = drop (length star) r1"
  define n2 where "n2 = 1 + length name + length star"
  have r: "r = name @ r1" by (simp add: name_def r1_def)
  have r1: "r1 = star @ r2"
    by (cases r1) (auto simp: star_def r2_def)
  have pre2: "t = (bslash # name @ star) @ r2" "n2 = length (bslash # name @ star)"
    by (simp_all add: t r r1 n2_def)
  from assms have c: "(case r2 of
        [] \<Rightarrow> None
      | y # r3 \<Rightarrow>
          if y = CHR ''[''
          then (let opt = takeWhile (\<lambda>z. z \<noteq> CHR '']'') r3;
                    r4 = dropWhile (\<lambda>z. z \<noteq> CHR '']'') r3
                in if r4 = [] then None
                   else braces_arg (n2 + length opt + 2) (tl r4))
          else braces_arg n2 r2) = Some (n, a)"
    unfolding command_arg_pat_def t name_def r1_def star_def r2_def n2_def Let_def
    by (simp split: if_splits)
  then obtain y r3 where r2c: "r2 = y # r3" by (cases r2) auto
  show ?thesis
  proof (cases "y = CHR ''[''")
    case False
    with c r2c have "braces_arg n2 r2 = Some (n, a)" by simp
    from braces_arg_Some[OF this] obtain rest where
      "n = n2 + length a + 2" "r2 = CHR ''{'' # a @ CHR ''}'' # rest" by blast
    with pre2 show ?thesis by blast
  next
    case True
    define opt where "opt = takeWhile (\<lambda>z. z \<noteq> CHR '']'') r3"
    define r4 where "r4 = dropWhile (\<lambda>z. z \<noteq> CHR '']'') r3"
    from c r2c True have ne: "r4 \<noteq> []"
      and b: "braces_arg (n2 + length opt + 2) (tl r4) = Some (n, a)"
      by (auto simp: Let_def opt_def r4_def split: if_splits)
    from ne obtain z zs where r4c: "r4 = z # zs" by (cases r4) auto
    have "r3 = opt @ r4" by (simp add: opt_def r4_def)
    then have r3: "r3 = opt @ z # zs" by (simp only: r4c)
    from braces_arg_Some[OF b] r4c obtain rest where
      n: "n = n2 + length opt + 2 + length a + 2" and zs: "zs = CHR ''{'' # a @ CHR ''}'' # rest"
      by auto
    have "t = (bslash # name @ star @ y # opt @ [z]) @ CHR ''{'' # a @ CHR ''}'' # rest"
      using pre2(1) r2c r3 zs by simp
    moreover have "n = length (bslash # name @ star @ y # opt @ [z]) + length a + 2"
      using n by (simp add: n2_def)
    ultimately show ?thesis by blast
  qed
qed

lemma command_arg_pat_ok:
  assumes "command_arg_pat t = Some (n, r)"
  shows "1 \<le> n \<and> subseq (filter P r) (filter P (take n t))"
proof -
  from command_arg_pat_Some[OF assms] obtain pre rest where
    t: "t = pre @ CHR ''{'' # r @ CHR ''}'' # rest" and n: "n = length pre + length r + 2"
    by blast
  have "take n t = (pre @ [CHR ''{'']) @ r @ [CHR ''}'']" by (simp add: t n)
  moreover have "subseq r ((pre @ [CHR ''{'']) @ r @ [CHR ''}''])"
    by (intro subseq_drop_many subseq_rev_drop_many) simp
  ultimately have "subseq r (take n t)" by simp
  then have "subseq (filter P r) (filter P (take n t))" by (rule subseq_filter)
  with n show ?thesis by simp
qed

lemma strip_subseq: "subseq (strip s) s"
proof -
  obtain w where "lstrip s = rstrip (lstrip s) @ w" using rstrip_decomp by blast
  then have "prefix (strip s) (lstrip s)" unfolding strip_def by (metis prefixI)
  then have "subseq (strip s) (lstrip s)" by (rule prefix_imp_subseq)
  moreover have "subseq (lstrip s) s"
    unfolding lstrip_def by (rule suffix_imp_subseq[OF suffix_dropWhile])
  ultimately show ?thesis by (rule subseq_order.trans)
qed

text \<open>
  C9. The plain-text reducer preserves the order of retained content: the characters of
  the output, whitespace and dashes apart, occur in the input in the same order. So the
  output arises from the input by deleting characters, writing bullet dashes and
  rewriting whitespace only, and the words that are kept stay in their relative order.
\<close>

theorem plain_text_order_preserving:
  "subseq (filter retained (strip_latex_to_plain s)) (filter retained s)"
proof -
  define t1 where "t1 = drop_comment_lines s"
  define t2 where "t2 = re_sub item_pat t1"
  define t3 where "t3 = re_sub command_arg_pat t2"
  define t4 where "t4 = re_sub command_pat t3"
  define t5 where "t5 = re_sub blanks_pat t4"
  define t6 where "t6 = re_sub blank_lines_pat t5"
  have e: "strip_latex_to_plain s = strip t6"
    by (simp add: strip_latex_to_plain_def t1_def t2_def t3_def t4_def t5_def t6_def)
  have s1: "subseq (filter retained t1) (filter retained s)"
    unfolding t1_def by (rule drop_comment_lines_subseq)
  have s2: "subseq (filter retained t2) (filter retained t1)"
    unfolding t2_def by (rule re_sub_subseq) (rule item_pat_ok)
  have s3: "subseq (filter retained t3) (filter retained t2)"
    unfolding t3_def by (rule re_sub_subseq) (rule command_arg_pat_ok)
  have s4: "subseq (filter retained t4) (filter retained t3)"
    unfolding t4_def by (rule re_sub_subseq) (rule command_pat_ok)
  have s5: "subseq (filter retained t5) (filter retained t4)"
    unfolding t5_def by (rule re_sub_subseq) (rule blanks_pat_ok)
  have s6: "subseq (filter retained t6) (filter retained t5)"
    unfolding t6_def by (rule re_sub_subseq) (rule blank_lines_pat_ok)
  have s7: "subseq (filter retained (strip t6)) (filter retained t6)"
    by (rule subseq_filter[OF strip_subseq])
  note tr = subseq_order.trans
  show ?thesis
    unfolding e by (rule tr[OF s7 tr[OF s6 tr[OF s5 tr[OF s4 tr[OF s3 tr[OF s2 s1]]]]]])
qed

theorem plain_text_order_preserving_witness:
  "strip_latex_to_plain (''% c\<newline>'' @ bslash # ''item  one '' @ bslash # ''textbf{two}  three'')
     = ''- one two three''
   \<and> subseq (filter retained ''- one two three'')
        (filter retained (''% c\<newline>'' @ bslash # ''item  one '' @ bslash # ''textbf{two}  three''))"
proof -
  have v: "strip_latex_to_plain (''% c\<newline>'' @ bslash # ''item  one '' @ bslash # ''textbf{two}  three'')
     = ''- one two three''"
    by code_simp
  show ?thesis
    using plain_text_order_preserving
      [of "''% c\<newline>'' @ bslash # ''item  one '' @ bslash # ''textbf{two}  three''"]
    by (simp only: v simp_thms)
qed

end
